theory Spec2Isabelle
  imports Complex_Main
begin

section \<open>The scalar type f32\<close>

text \<open>
  The kernel of \<^verbatim>\<open>my_math.h\<close> computes on \<^verbatim>\<open>f32\<close>, the IEEE 754 binary32 format.
  A value is a finite number, one of the two infinities, or NaN. Finite values carry
  their real value; the operations compute the exact real result and round it with
  \<open>rnd\<close>, round to nearest with ties to even on 24 significand bits, least exponent
  \<open>-149\<close>, overflow to an infinity from \<open>2 ^ 128\<close> on. This is the default mode of the
  SSE unit that the header programs through \<^verbatim>\<open>immintrin.h\<close>.

  What the model leaves out: the sign of zero (the two zeros are one value \<open>Fin 0\<close>,
  which divides like \<open>+0\<close>; the source's \<^verbatim>\<open>==\<close> does not tell them apart either),
  NaN payloads (one NaN), and the flush-to-zero modes. Every operation is rounded on its
  own, as the source writes it: no product and sum are fused. A value \<open>Fin x\<close> is a binary32
  number when rounding leaves it alone, \<open>is_f32\<close>; every operation returns such values.
\<close>

datatype f32 = Fin real | PInf | NInf | NaN

definition round_even :: "real \<Rightarrow> int" where
  "round_even r = (let f = \<lfloor>r\<rfloor>; d = r - of_int f in
     if d < 1/2 then f else if 1/2 < d then f + 1 else if even f then f else f + 1)"

definition ulp_exp :: "real \<Rightarrow> int" where
  "ulp_exp x = max \<lfloor>log 2 \<bar>x\<bar>\<rfloor> (- 126) - 23"

definition rnd :: "real \<Rightarrow> f32" where
  "rnd x = (if x = 0 then Fin 0 else
     let u = 2 powr of_int (ulp_exp x); y = of_int (round_even (x / u)) * u in
     if 2 ^ 128 \<le> \<bar>y\<bar> then (if 0 < x then PInf else NInf) else Fin y)"

definition is_f32 :: "f32 \<Rightarrow> bool" where
  "is_f32 a = (case a of Fin x \<Rightarrow> rnd x = Fin x | _ \<Rightarrow> True)"

definition is_finite :: "f32 \<Rightarrow> bool" where
  "is_finite a = (case a of Fin x \<Rightarrow> True | _ \<Rightarrow> False)"

definition real_of_f32 :: "f32 \<Rightarrow> real" where
  "real_of_f32 a = (case a of Fin x \<Rightarrow> x | _ \<Rightarrow> 0)"

fun is_neg :: "f32 \<Rightarrow> bool" where
  "is_neg (Fin x) = (x < 0)"
| "is_neg NInf = True"
| "is_neg _ = False"

definition signed_inf :: "bool \<Rightarrow> f32" where
  "signed_inf neg = (if neg then NInf else PInf)"

fun fneg :: "f32 \<Rightarrow> f32" where
  "fneg (Fin x) = Fin (- x)"
| "fneg PInf = NInf"
| "fneg NInf = PInf"
| "fneg NaN = NaN"

fun fabsf :: "f32 \<Rightarrow> f32" where
  "fabsf (Fin x) = Fin \<bar>x\<bar>"
| "fabsf PInf = PInf"
| "fabsf NInf = PInf"
| "fabsf NaN = NaN"

fun fadd :: "f32 \<Rightarrow> f32 \<Rightarrow> f32" where
  "fadd (Fin x) (Fin y) = rnd (x + y)"
| "fadd NaN _ = NaN"
| "fadd _ NaN = NaN"
| "fadd PInf NInf = NaN"
| "fadd NInf PInf = NaN"
| "fadd PInf _ = PInf"
| "fadd _ PInf = PInf"
| "fadd NInf _ = NInf"
| "fadd _ NInf = NInf"

fun fmul :: "f32 \<Rightarrow> f32 \<Rightarrow> f32" where
  "fmul (Fin x) (Fin y) = rnd (x * y)"
| "fmul NaN _ = NaN"
| "fmul _ NaN = NaN"
| "fmul a b = (if a = Fin 0 \<or> b = Fin 0 then NaN else signed_inf (is_neg a \<noteq> is_neg b))"

fun fdiv :: "f32 \<Rightarrow> f32 \<Rightarrow> f32" where
  "fdiv (Fin x) (Fin y) =
     (if y = 0 then (if x = 0 then NaN else signed_inf (x < 0)) else rnd (x / y))"
| "fdiv NaN _ = NaN"
| "fdiv _ NaN = NaN"
| "fdiv (Fin x) _ = Fin 0"
| "fdiv a (Fin y) = signed_inf (is_neg a \<noteq> (y < 0))"
| "fdiv _ _ = NaN"

fun fless :: "f32 \<Rightarrow> f32 \<Rightarrow> bool" where
  "fless (Fin x) (Fin y) = (x < y)"
| "fless NaN _ = False"
| "fless _ NaN = False"
| "fless NInf b = (b \<noteq> NInf)"
| "fless a PInf = (a \<noteq> PInf)"
| "fless _ _ = False"

text \<open>
  The C++ operators on \<^verbatim>\<open>f32\<close> are the operators of the type: \<open>a + b\<close>, \<open>a - b\<close>,
  \<open>a * b\<close>, \<open>a / b\<close>, \<open>- a\<close>, \<open>\<bar>a\<bar>\<close> (\<^verbatim>\<open>fabsf\<close>), \<open>a < b\<close>; the literals
  \<^verbatim>\<open>0.0f\<close> and \<^verbatim>\<open>1.0f\<close> are \<open>0\<close> and \<open>1\<close>, any other literal \<open>c\<close> is \<open>Fin c\<close>.
  The test \<^verbatim>\<open>a != 0.0f\<close> is \<open>a \<noteq> 0\<close>: it holds of NaN in C++ and in HOL alike.
\<close>

instantiation f32 :: "{zero, one, plus, minus, uminus, times, inverse, abs, ord}"
begin
definition zero_f32 :: f32 where "zero_f32 = Fin 0"
definition one_f32 :: f32 where "one_f32 = Fin 1"
definition plus_f32 :: "f32 \<Rightarrow> f32 \<Rightarrow> f32" where "plus_f32 a b = fadd a b"
definition uminus_f32 :: "f32 \<Rightarrow> f32" where "uminus_f32 a = fneg a"
definition minus_f32 :: "f32 \<Rightarrow> f32 \<Rightarrow> f32" where "minus_f32 a b = fadd a (fneg b)"
definition times_f32 :: "f32 \<Rightarrow> f32 \<Rightarrow> f32" where "times_f32 a b = fmul a b"
definition divide_f32 :: "f32 \<Rightarrow> f32 \<Rightarrow> f32" where "divide_f32 a b = fdiv a b"
definition inverse_f32 :: "f32 \<Rightarrow> f32" where "inverse_f32 a = fdiv (Fin 1) a"
definition abs_f32 :: "f32 \<Rightarrow> f32" where "abs_f32 a = fabsf a"
definition less_f32 :: "f32 \<Rightarrow> f32 \<Rightarrow> bool" where "less_f32 a b = fless a b"
definition less_eq_f32 :: "f32 \<Rightarrow> f32 \<Rightarrow> bool" where
  "less_eq_f32 a b = (fless a b \<or> (a = b \<and> a \<noteq> NaN))"
instance ..
end

text \<open>
  \<^verbatim>\<open>lib::sqrt\<close> is the instruction \<^verbatim>\<open>sqrtss\<close>, which rounds the exact root. The
  functions \<^verbatim>\<open>sin\<close>, \<^verbatim>\<open>cos\<close> and \<^verbatim>\<open>tan\<close> come from the C library; they are taken
  to return the rounded exact value.
\<close>

definition sqrt_f32 :: "f32 \<Rightarrow> f32" where
  "sqrt_f32 f = (case f of Fin x \<Rightarrow> (if x < 0 then NaN else rnd (sqrt x))
                 | PInf \<Rightarrow> PInf | NInf \<Rightarrow> NaN | NaN \<Rightarrow> NaN)"

definition fsin :: "f32 \<Rightarrow> f32" where
  "fsin a = (case a of Fin x \<Rightarrow> rnd (sin x) | _ \<Rightarrow> NaN)"

definition fcos :: "f32 \<Rightarrow> f32" where
  "fcos a = (case a of Fin x \<Rightarrow> rnd (cos x) | _ \<Rightarrow> NaN)"

definition ftan :: "f32 \<Rightarrow> f32" where
  "ftan a = (case a of Fin x \<Rightarrow> rnd (tan x) | _ \<Rightarrow> NaN)"

text \<open>
  The casts of \<^verbatim>\<open>mod_pi\<close>. \<^verbatim>\<open>(s32)f\<close> is \<^verbatim>\<open>cvttss2si\<close>: truncation towards zero,
  and the value \<open>- 2 ^ 31\<close> when the result does not fit or \<open>f\<close> is not finite (C++ leaves
  that case undefined). \<^verbatim>\<open>(f32)n\<close> rounds the integer.
\<close>

definition s32_of_real :: "real \<Rightarrow> int" where
  "s32_of_real x = (let t = (if 0 \<le> x then \<lfloor>x\<rfloor> else \<lceil>x\<rceil>) in
                     if - (2 ^ 31) \<le> t \<and> t < 2 ^ 31 then t else - (2 ^ 31))"

definition s32_of_f32 :: "f32 \<Rightarrow> int" where
  "s32_of_f32 f = (case f of Fin x \<Rightarrow> s32_of_real x | _ \<Rightarrow> - (2 ^ 31))"

definition f32_of_s32 :: "int \<Rightarrow> f32" where
  "f32_of_s32 n = rnd (of_int n)"

text \<open>
  Modelled from the spec: the constant \<^verbatim>\<open>PI32\<close> is defined in \<^verbatim>\<open>Utils.hpp\<close>, which is
  not among the sources. The spec calls it \<open>\<pi>\<close> and its type is \<^verbatim>\<open>f32\<close>, so it is the
  binary32 number nearest to \<open>\<pi>\<close>, \<open>13176795 / 2 ^ 22\<close> (bit pattern 40490FDB).
\<close>

definition PI32 :: f32 where
  "PI32 = Fin (13176795 / 2 ^ 22)"

subsection \<open>Scalar utilities\<close>

text \<open>\<^verbatim>\<open>mod_pi\<close>, lines 38 to 53.\<close>

definition mod_pi :: "f32 \<Rightarrow> f32" where
  "mod_pi angle0 =
     (let pi32_2 = Fin 2 * PI32;
          angle = angle0 + PI32;
          f_t = \<bar>angle\<bar>;
          f_t = f_t - (pi32_2 * f32_of_s32 (s32_of_f32 (f_t / pi32_2)));
          f_t = f_t - PI32;
          f_t = (if angle < 0 then - f_t else f_t)
      in f_t)"

section \<open>Vectors\<close>

text \<open>
  \<^verbatim>\<open>Vec2\<close>, \<^verbatim>\<open>Vec3\<close> and \<^verbatim>\<open>Vec4\<close> are unions whose members name the same two,
  three or four floats; the constructors below list them in memory order
  (\<^verbatim>\<open>x, y, z, w\<close>). The code that uses only the arithmetic operators is written for any
  scalar type \<open>'a\<close> that has them: at \<open>f32\<close> it is the program, at \<open>real\<close> it is the same
  formulas without rounding. The overloads of one C++ name carry the vector type as a
  suffix.
\<close>

datatype 'a Vec2 = Vec2 'a 'a
datatype 'a Vec3 = Vec3 'a 'a 'a
datatype 'a Vec4 = Vec4 'a 'a 'a 'a


fun sub_Vec3 :: "'a::minus Vec3 \<Rightarrow> 'a Vec3 \<Rightarrow> 'a Vec3" where
  "sub_Vec3 (Vec3 ax ay az) (Vec3 bx by bz) = Vec3 (ax - bx) (ay - by) (az - bz)"

fun scale_Vec3 :: "'a::times \<Rightarrow> 'a Vec3 \<Rightarrow> 'a Vec3" where
  "scale_Vec3 t (Vec3 bx by bz) = Vec3 (t * bx) (t * by) (t * bz)"


definition div_Vec3_f32 :: "'a::{one,times,inverse} Vec3 \<Rightarrow> 'a \<Rightarrow> 'a Vec3" where
  "div_Vec3_f32 b t = scale_Vec3 (1 / t) b"

fun dot_Vec2 :: "'a::{plus,times} Vec2 \<Rightarrow> 'a Vec2 \<Rightarrow> 'a" where
  "dot_Vec2 (Vec2 ax ay) (Vec2 bx by) = (ax * bx) + (ay * by)"

fun dot_Vec3 :: "'a::{plus,times} Vec3 \<Rightarrow> 'a Vec3 \<Rightarrow> 'a" where
  "dot_Vec3 (Vec3 ax ay az) (Vec3 bx by bz) = (ax * bx) + (ay * by) + (az * bz)"

fun dot_Vec4 :: "'a::{plus,times} Vec4 \<Rightarrow> 'a Vec4 \<Rightarrow> 'a" where
  "dot_Vec4 (Vec4 ax ay az aw) (Vec4 bx by bz bw) = (ax * bx) + (ay * by) + (az * bz) + (aw * bw)"

fun cross_Vec3 :: "'a::{minus,times} Vec3 \<Rightarrow> 'a Vec3 \<Rightarrow> 'a Vec3" where
  "cross_Vec3 (Vec3 ax ay az) (Vec3 bx by bz) =
     Vec3 ((ay * bz) - (az * by)) ((az * bx) - (ax * bz)) ((ax * by) - (ay * bx))"

fun length_vec_Vec2 :: "f32 Vec2 \<Rightarrow> f32" where
  "length_vec_Vec2 (Vec2 ax ay) = sqrt_f32 ((ax * ax) + (ay * ay))"

fun length_vec_Vec3 :: "f32 Vec3 \<Rightarrow> f32" where
  "length_vec_Vec3 (Vec3 ax ay az) = sqrt_f32 ((ax * ax) + (ay * ay) + (az * az))"

definition length_vec_Vec4 :: "f32 Vec4 \<Rightarrow> f32" where
  "length_vec_Vec4 a = sqrt_f32 (dot_Vec4 a a)"

fun normalize_Vec2 :: "f32 Vec2 \<Rightarrow> f32 Vec2" where
  "normalize_Vec2 (Vec2 ax ay) =
     (let out = Vec2 0 0; length = length_vec_Vec2 (Vec2 ax ay) in
      if length \<noteq> 0 then (let multi = 1 / length in Vec2 (ax * multi) (ay * multi))
      else out)"

fun normalize_Vec3 :: "f32 Vec3 \<Rightarrow> f32 Vec3" where
  "normalize_Vec3 (Vec3 ax ay az) =
     (let out = Vec3 0 0 0; length = length_vec_Vec3 (Vec3 ax ay az) in
      if length \<noteq> 0 then (let multi = 1 / length in Vec3 (ax * multi) (ay * multi) (az * multi))
      else out)"

subsection \<open>SSE registers\<close>

text \<open>
  A \<^verbatim>\<open>__m128\<close> is the \<^verbatim>\<open>simd\<close> member of \<^verbatim>\<open>Vec4\<close>: four lanes, lane 0 is \<^verbatim>\<open>x\<close>.
  \<^verbatim>\<open>_mm_shuffle_ps(a, b, _MM_SHUFFLE(fp3, fp2, fp1, fp0))\<close> takes lanes \<open>fp0\<close> and \<open>fp1\<close>
  of \<open>a\<close> and lanes \<open>fp2\<close> and \<open>fp3\<close> of \<open>b\<close>; \<^verbatim>\<open>_mm_set_ps\<close> lists lane 3 first.
\<close>

fun lane :: "'a Vec4 \<Rightarrow> nat \<Rightarrow> 'a" where
  "lane (Vec4 x y z w) i = (if i = 0 then x else if i = 1 then y else if i = 2 then z else w)"

fun mm_add_ps :: "'a::plus Vec4 \<Rightarrow> 'a Vec4 \<Rightarrow> 'a Vec4" where
  "mm_add_ps (Vec4 ax ay az aw) (Vec4 bx by bz bw) = Vec4 (ax + bx) (ay + by) (az + bz) (aw + bw)"

fun mm_sub_ps :: "'a::minus Vec4 \<Rightarrow> 'a Vec4 \<Rightarrow> 'a Vec4" where
  "mm_sub_ps (Vec4 ax ay az aw) (Vec4 bx by bz bw) = Vec4 (ax - bx) (ay - by) (az - bz) (aw - bw)"

fun mm_mul_ps :: "'a::times Vec4 \<Rightarrow> 'a Vec4 \<Rightarrow> 'a Vec4" where
  "mm_mul_ps (Vec4 ax ay az aw) (Vec4 bx by bz bw) = Vec4 (ax * bx) (ay * by) (az * bz) (aw * bw)"

definition mm_set_ps1 :: "'a \<Rightarrow> 'a Vec4" where
  "mm_set_ps1 t = Vec4 t t t t"

definition mm_set_ps :: "'a \<Rightarrow> 'a \<Rightarrow> 'a \<Rightarrow> 'a \<Rightarrow> 'a Vec4" where
  "mm_set_ps e3 e2 e1 e0 = Vec4 e0 e1 e2 e3"

definition mm_shuffle_ps :: "'a Vec4 \<Rightarrow> 'a Vec4 \<Rightarrow> nat \<times> nat \<times> nat \<times> nat \<Rightarrow> 'a Vec4" where
  "mm_shuffle_ps a b imm = (case imm of (fp3, fp2, fp1, fp0) \<Rightarrow>
     Vec4 (lane a fp0) (lane a fp1) (lane b fp2) (lane b fp3))"

definition normalize_Vec4 :: "f32 Vec4 \<Rightarrow> f32 Vec4" where
  "normalize_Vec4 a =
     (let out = Vec4 0 0 0 0; length = length_vec_Vec4 a in
      if length \<noteq> 0 then (let single = mm_set_ps1 (1 / length) in mm_mul_ps a single)
      else out)"

definition cross_Vec4 :: "'a::{minus,times} Vec4 \<Rightarrow> 'a Vec4 \<Rightarrow> 'a Vec4" where
  "cross_Vec4 a b =
     (let tmp0 = mm_shuffle_ps a a (3, 0, 2, 1);
          tmp1 = mm_shuffle_ps b b (3, 1, 0, 2);
          tmp2 = mm_mul_ps tmp0 b;
          tmp3 = mm_mul_ps tmp0 tmp1;
          tmp4 = mm_shuffle_ps tmp2 tmp2 (3, 0, 2, 1)
      in mm_sub_ps tmp3 tmp4)"

text \<open>
  \<^verbatim>\<open>refract_fast\<close>, lines 291 to 297: the body is the breakpoint trap \<^verbatim>\<open>__debugbreak()\<close>
  and no \<^verbatim>\<open>return\<close>.
\<close>

datatype trap = DebugBreak

definition refract_fast :: "f32 Vec2 \<Rightarrow> f32 Vec2 \<Rightarrow> f32 \<Rightarrow> trap + f32 Vec2" where
  "refract_fast a b ratio = Inl DebugBreak"

section \<open>Mat4\<close>

text \<open>
  A \<^verbatim>\<open>Mat4\<close> is four columns; \<^verbatim>\<open>m.e[c][r]\<close> is lane \<open>r\<close> of column \<open>c\<close>, that is row
  \<open>r\<close> and column \<open>c\<close> of the matrix. \<^verbatim>\<open>Mat4 out{}\<close> is the zero matrix, an assignment
  to \<^verbatim>\<open>out.e[c][r]\<close> or \<^verbatim>\<open>out.columns[c]\<close> returns the updated matrix.
\<close>

datatype 'a Mat4 = Mat4 "'a Vec4" "'a Vec4" "'a Vec4" "'a Vec4"

fun columns :: "'a Mat4 \<Rightarrow> nat \<Rightarrow> 'a Vec4" where
  "columns (Mat4 c0 c1 c2 c3) i = (if i = 0 then c0 else if i = 1 then c1 else if i = 2 then c2 else c3)"

fun set_columns :: "'a Mat4 \<Rightarrow> nat \<Rightarrow> 'a Vec4 \<Rightarrow> 'a Mat4" where
  "set_columns (Mat4 c0 c1 c2 c3) i v =
     (if i = 0 then Mat4 v c1 c2 c3 else if i = 1 then Mat4 c0 v c2 c3
      else if i = 2 then Mat4 c0 c1 v c3 else Mat4 c0 c1 c2 v)"

fun set_lane :: "'a Vec4 \<Rightarrow> nat \<Rightarrow> 'a \<Rightarrow> 'a Vec4" where
  "set_lane (Vec4 x y z w) i v =
     (if i = 0 then Vec4 v y z w else if i = 1 then Vec4 x v z w
      else if i = 2 then Vec4 x y v w else Vec4 x y z v)"

definition e :: "'a Mat4 \<Rightarrow> nat \<Rightarrow> nat \<Rightarrow> 'a" where
  "e m c r = lane (columns m c) r"

definition set_e :: "'a Mat4 \<Rightarrow> nat \<Rightarrow> nat \<Rightarrow> 'a \<Rightarrow> 'a Mat4" where
  "set_e m c r v = set_columns m c (set_lane (columns m c) r v)"

definition Mat4_zero :: "'a::zero Mat4" where
  "Mat4_zero = Mat4 (Vec4 0 0 0 0) (Vec4 0 0 0 0) (Vec4 0 0 0 0) (Vec4 0 0 0 0)"

fun xyz :: "'a Vec4 \<Rightarrow> 'a Vec3" where
  "xyz (Vec4 x y z w) = Vec3 x y z"


definition linear_combination :: "'a::{plus,times} Mat4 \<Rightarrow> 'a Vec4 \<Rightarrow> 'a Vec4" where
  "linear_combination a b =
     (let out = mm_mul_ps (columns a 0) (mm_shuffle_ps b b (0, 0, 0, 0));
          out = mm_add_ps out (mm_mul_ps (columns a 1) (mm_shuffle_ps b b (1, 1, 1, 1)));
          out = mm_add_ps out (mm_mul_ps (columns a 2) (mm_shuffle_ps b b (2, 2, 2, 2)));
          out = mm_add_ps out (mm_mul_ps (columns a 3) (mm_shuffle_ps b b (3, 3, 3, 3)))
      in out)"

definition mul_Mat4_Vec4 :: "'a::{plus,times} Mat4 \<Rightarrow> 'a Vec4 \<Rightarrow> 'a Vec4" where
  "mul_Mat4_Vec4 a b = linear_combination a b"

definition mul_Mat4 :: "'a::{zero,plus,times} Mat4 \<Rightarrow> 'a Mat4 \<Rightarrow> 'a Mat4" where
  "mul_Mat4 a b =
     (let out = Mat4_zero;
          out = set_columns out 0 (linear_combination a (columns b 0));
          out = set_columns out 1 (linear_combination a (columns b 1));
          out = set_columns out 2 (linear_combination a (columns b 2));
          out = set_columns out 3 (linear_combination a (columns b 3))
      in out)"



definition create_diagonal_matrix :: "'a::zero \<Rightarrow> 'a Mat4" where
  "create_diagonal_matrix val =
     (let out = Mat4_zero;
          out = set_e out 0 0 val;
          out = set_e out 1 1 val;
          out = set_e out 2 2 val;
          out = set_e out 3 3 val
      in out)"

definition create_rotation_z :: "f32 \<Rightarrow> f32 Mat4" where
  "create_rotation_z angle =
     (let out = create_diagonal_matrix 1;
          sin_theta = fsin angle;
          cos_theta = fcos angle;
          out = set_e out 0 0 cos_theta;
          out = set_e out 0 1 sin_theta;
          out = set_e out 0 2 0;
          out = set_e out 1 0 (- sin_theta);
          out = set_e out 1 1 cos_theta;
          out = set_e out 1 2 0;
          out = set_e out 2 0 0;
          out = set_e out 2 1 0;
          out = set_e out 2 2 1
      in out)"

definition create_look_at :: "f32 Vec3 \<Rightarrow> f32 Vec3 \<Rightarrow> f32 Vec3 \<Rightarrow> f32 Mat4" where
  "create_look_at eye target up =
     (let out = Mat4_zero;
          forward = normalize_Vec3 (sub_Vec3 eye target);
          right = normalize_Vec3 (cross_Vec3 up forward);
          upward = cross_Vec3 forward right
      in case (right, upward, forward) of (Vec3 rx ry rz, Vec3 ux uy uz, Vec3 fx fy fz) \<Rightarrow>
        (let out = set_e out 0 0 rx;
             out = set_e out 0 1 ux;
             out = set_e out 0 2 fx;
             out = set_e out 0 3 0;
             out = set_e out 1 0 ry;
             out = set_e out 1 1 uy;
             out = set_e out 1 2 fy;
             out = set_e out 1 3 0;
             out = set_e out 2 0 rz;
             out = set_e out 2 1 uz;
             out = set_e out 2 2 fz;
             out = set_e out 2 3 0;
             out = set_e out 3 0 (- dot_Vec3 right eye);
             out = set_e out 3 1 (- dot_Vec3 upward eye);
             out = set_e out 3 2 (- dot_Vec3 forward eye);
             out = set_e out 3 3 1
         in out))"

definition create_perspective :: "f32 \<Rightarrow> f32 \<Rightarrow> f32 \<Rightarrow> f32 \<Rightarrow> f32 Mat4" where
  "create_perspective fov aspect near far =
     (let out = Mat4_zero;
          y_scale = 1 / ftan (fov / Fin 2);
          x_scale = y_scale / aspect;
          out = set_e out 0 0 x_scale;
          out = set_e out 1 1 y_scale;
          out = set_e out 2 3 (- 1);
          out = set_e out 2 2 (far / (near - far));
          out = set_e out 3 2 ((near * far) / (near - far))
      in out)"



definition trans_linear_combination :: "'a::{plus,times} Mat4 \<Rightarrow> 'a Vec4 \<Rightarrow> 'a Vec4" where
  "trans_linear_combination a b =
     (let out = mm_mul_ps (columns a 0) (mm_shuffle_ps b b (0, 0, 0, 0));
          out = mm_add_ps out (mm_mul_ps (columns a 1) (mm_shuffle_ps b b (1, 1, 1, 1)));
          out = mm_add_ps out (mm_mul_ps (columns a 2) (mm_shuffle_ps b b (2, 2, 2, 2)))
      in out)"

definition mul_trans_point :: "'a::{one,plus,times} Mat4 \<Rightarrow> 'a Vec3 \<Rightarrow> 'a Vec3" where
  "mul_trans_point a p = (case p of Vec3 px py pz \<Rightarrow>
     (let con = mm_set_ps 1 pz py px;
          out = mm_mul_ps (columns a 0) (mm_shuffle_ps con con (0, 0, 0, 0));
          out = mm_add_ps out (mm_mul_ps (columns a 1) (mm_shuffle_ps con con (1, 1, 1, 1)));
          out = mm_add_ps out (mm_mul_ps (columns a 2) (mm_shuffle_ps con con (2, 2, 2, 2)));
          out = mm_add_ps out (columns a 3)
      in Vec3 (lane out 0) (lane out 1) (lane out 2)))"

definition mul_trans :: "'a::{zero,plus,times} Mat4 \<Rightarrow> 'a Mat4 \<Rightarrow> 'a Mat4" where
  "mul_trans a b =
     (let out = Mat4_zero;
          out = set_columns out 0 (trans_linear_combination a (columns b 0));
          out = set_columns out 1 (trans_linear_combination a (columns b 1));
          out = set_columns out 2 (trans_linear_combination a (columns b 2));
          out = set_columns out 3 (linear_combination a (columns b 3))
      in out)"

section \<open>Notions of the specification\<close>

text \<open>
  Vectors of binary32 numbers and vectors of finite numbers.
\<close>

fun valid_Vec4 :: "f32 Vec4 \<Rightarrow> bool" where
  "valid_Vec4 (Vec4 x y z w) = (is_f32 x \<and> is_f32 y \<and> is_f32 z \<and> is_f32 w)"

fun finite_Vec4 :: "f32 Vec4 \<Rightarrow> bool" where
  "finite_Vec4 (Vec4 x y z w) = (is_finite x \<and> is_finite y \<and> is_finite z \<and> is_finite w)"

text \<open>
  For the claim on \<open>normalize\<close>: the Euclidean length of a vector of finite numbers, computed
  without rounding, and the vectors of moderate size, whose components have magnitude at
  most \<open>2 ^ 60\<close> with at least one of magnitude \<open>2 ^ -60\<close> or more, so that no square
  overflows and the sum of the squares does not underflow.
\<close>

fun finite_Vec2 :: "f32 Vec2 \<Rightarrow> bool" where
  "finite_Vec2 (Vec2 x y) = (is_finite x \<and> is_finite y)"

fun finite_Vec3 :: "f32 Vec3 \<Rightarrow> bool" where
  "finite_Vec3 (Vec3 x y z) = (is_finite x \<and> is_finite y \<and> is_finite z)"

fun exact_length_Vec2 :: "f32 Vec2 \<Rightarrow> real" where
  "exact_length_Vec2 (Vec2 x y) = sqrt (real_of_f32 x * real_of_f32 x + real_of_f32 y * real_of_f32 y)"

fun exact_length_Vec3 :: "f32 Vec3 \<Rightarrow> real" where
  "exact_length_Vec3 (Vec3 x y z) =
     sqrt (real_of_f32 x * real_of_f32 x + real_of_f32 y * real_of_f32 y + real_of_f32 z * real_of_f32 z)"

fun exact_length_Vec4 :: "f32 Vec4 \<Rightarrow> real" where
  "exact_length_Vec4 (Vec4 x y z w) =
     sqrt (real_of_f32 x * real_of_f32 x + real_of_f32 y * real_of_f32 y + real_of_f32 z * real_of_f32 z
           + real_of_f32 w * real_of_f32 w)"

definition moderate :: "f32 \<Rightarrow> bool" where
  "moderate x = (is_finite x \<and> \<bar>real_of_f32 x\<bar> \<le> 2 ^ 60)"

definition sizeable :: "f32 \<Rightarrow> bool" where
  "sizeable x = (1 / 2 ^ 60 \<le> \<bar>real_of_f32 x\<bar>)"

fun moderate_Vec2 :: "f32 Vec2 \<Rightarrow> bool" where
  "moderate_Vec2 (Vec2 x y) = (moderate x \<and> moderate y \<and> (sizeable x \<or> sizeable y))"

fun moderate_Vec3 :: "f32 Vec3 \<Rightarrow> bool" where
  "moderate_Vec3 (Vec3 x y z) = (moderate x \<and> moderate y \<and> moderate z \<and> (sizeable x \<or> sizeable y \<or> sizeable z))"

fun moderate_Vec4 :: "f32 Vec4 \<Rightarrow> bool" where
  "moderate_Vec4 (Vec4 x y z w) =
     (moderate x \<and> moderate y \<and> moderate z \<and> moderate w \<and> (sizeable x \<or> sizeable y \<or> sizeable z \<or> sizeable w))"











text \<open>
  For the error analysis of \<open>det\<close>, \<open>inverse\<close> and the matrix product, which run the same
  code at \<open>f32\<close> and at \<open>real\<close>: \<open>approx B E a x\<close> says that the f32 value \<open>a\<close> is finite
  and within \<open>E\<close> of the real number \<open>x\<close>, whose magnitude is at most \<open>B\<close>. The error
  functions give the error after one rounded product or sum of two such values, after
  a difference of two products, and after a sum of three and of four products.
\<close>

definition approx :: "real \<Rightarrow> real \<Rightarrow> f32 \<Rightarrow> real \<Rightarrow> bool" where
  "approx B E a x = (is_finite a \<and> \<bar>real_of_f32 a - x\<bar> \<le> E \<and> \<bar>x\<bar> \<le> B)"

fun approx3 :: "real \<Rightarrow> real \<Rightarrow> f32 Vec3 \<Rightarrow> real Vec3 \<Rightarrow> bool" where
  "approx3 B E (Vec3 a b c) (Vec3 x y z) = (approx B E a x \<and> approx B E b y \<and> approx B E c z)"









text \<open>Powers of two with integer exponent, for the lemmas on rounding.\<close>

definition p2 :: "int \<Rightarrow> real" where "p2 k = 2 powr of_int k"


section \<open>Rounding\<close>

lemma round_even_of_int [simp]: "round_even (of_int n) = n"
  by (simp add: round_even_def)

lemma round_even_bounds: "\<bar>of_int (round_even r) - r\<bar> \<le> 1/2"
  unfolding round_even_def Let_def by (auto simp: abs_if) linarith+


lemma floor_log2_eq:
  assumes "2 powr of_int k \<le> x" "x < 2 powr of_int (k + 1)"
  shows "\<lfloor>log 2 x\<rfloor> = k"
proof -
  have x0: "0 < x" using assms(1) by (smt (verit) powr_gt_zero)
  have "of_int k \<le> log 2 x" using assms(1) x0 by (simp add: le_log_iff)
  moreover have "log 2 x < of_int (k + 1)" using assms(2) x0 by (simp add: log_less_iff)
  ultimately show ?thesis by (simp add: floor_eq_iff)
qed




lemma p2_pos [simp]: "0 < p2 ex" by (simp add: p2_def)
lemma p2_nz [simp]: "p2 ex \<noteq> 0" by (simp add: p2_def)
lemma p2_add: "p2 (a + b) = p2 a * p2 b" by (simp add: p2_def powr_add)
lemma p2_diff: "p2 (a - b) = p2 a / p2 b" by (simp add: p2_def powr_diff)
lemma p2_mono: "a \<le> b \<Longrightarrow> p2 a \<le> p2 b" by (simp add: p2_def)
lemma p2_nat: "p2 (int n) = 2 ^ n" by (simp add: p2_def powr_realpow)
lemma p2_neg_nat: "p2 (- int n) = 1 / 2 ^ n" by (simp add: p2_def powr_minus powr_realpow inverse_eq_divide)
lemma p2_0 [simp]: "p2 0 = 1" by (simp add: p2_def)

lemma p2_is_int: "0 \<le> k \<Longrightarrow> p2 k = of_int (2 ^ nat k)"
  using p2_nat [of "nat k"] by simp

lemma floor_log2_p2:
  assumes "p2 k \<le> x" "x < p2 (k + 1)"
  shows "\<lfloor>log 2 x\<rfloor> = k"
  using assms floor_log2_eq unfolding p2_def by blast

lemma log2_bracket:
  assumes "0 < x"
  shows "p2 \<lfloor>log 2 x\<rfloor> \<le> x \<and> x < p2 (\<lfloor>log 2 x\<rfloor> + 1)"
proof -
  have a: "of_int \<lfloor>log 2 x\<rfloor> \<le> log 2 x" by simp
  have b: "log 2 x < of_int (\<lfloor>log 2 x\<rfloor> + 1)" by linarith
  from a have "p2 \<lfloor>log 2 x\<rfloor> \<le> x" unfolding p2_def using assms
    by (simp add: powr_le_iff)
  moreover from b have "x < p2 (\<lfloor>log 2 x\<rfloor> + 1)" unfolding p2_def using assms
    by (simp add: less_powr_iff)
  ultimately show ?thesis by simp
qed

lemma ulp_exp_ge: "- 149 \<le> ulp_exp x" by (simp add: ulp_exp_def)

lemma abs_lt_ulp: assumes "x \<noteq> 0" shows "\<bar>x\<bar> < p2 (ulp_exp x + 24)"
proof -
  have "\<bar>x\<bar> < p2 (\<lfloor>log 2 \<bar>x\<bar>\<rfloor> + 1)" using log2_bracket [of "\<bar>x\<bar>"] assms by simp
  also have "\<dots> \<le> p2 (ulp_exp x + 24)" by (rule p2_mono) (simp add: ulp_exp_def)
  finally show ?thesis .
qed

lemma ulp_exp_le:
  assumes "x \<noteq> 0" "\<bar>x\<bar> < p2 (ex + 24)" "- 149 \<le> ex"
  shows "ulp_exp x \<le> ex"
proof -
  have "p2 \<lfloor>log 2 \<bar>x\<bar>\<rfloor> \<le> \<bar>x\<bar>" using log2_bracket [of "\<bar>x\<bar>"] assms by simp
  with assms(2) have "p2 \<lfloor>log 2 \<bar>x\<bar>\<rfloor> < p2 (ex + 24)" by linarith
  then have "\<lfloor>log 2 \<bar>x\<bar>\<rfloor> < ex + 24" unfolding p2_def by simp
  with assms(3) show ?thesis by (simp add: ulp_exp_def)
qed

lemma rnd_grid:
  assumes "x = of_int m * p2 ex" "\<bar>m\<bar> < 2 ^ 24" "- 149 \<le> ex" "\<bar>x\<bar> < 2 ^ 128"
  shows "rnd x = Fin x"
proof (cases "x = 0")
  case True then show ?thesis by (simp add: rnd_def)
next
  case False
  have "\<bar>x\<bar> = of_int \<bar>m\<bar> * p2 ex" using assms(1) by (simp add: abs_mult abs_of_pos)
  also have "\<dots> < 2 ^ 24 * p2 ex"
  proof -
    have "(of_int \<bar>m\<bar> :: real) < of_int (2 ^ 24)" using assms(2) by (simp only: of_int_less_iff)
    then show ?thesis by simp
  qed
  also have "\<dots> = p2 (ex + 24)" using p2_nat [of 24] by (simp add: p2_add)
  finally have "ulp_exp x \<le> ex" using ulp_exp_le False assms(3) by blast
  then obtain k where k: "ex = ulp_exp x + int k"
    by (metis add.commute diff_add_cancel nonneg_int_cases diff_ge_0_iff_ge)
  define u where "u = p2 (ulp_exp x)"
  have u0: "u \<noteq> 0" by (simp add: u_def)
  have "p2 ex = u * p2 (int k)" unfolding u_def by (subst k) (rule p2_add)
  then have "x = (of_int m * p2 (int k)) * u" using assms(1) by simp
  then have "x / u = of_int m * p2 (int k)" using u0 by simp
  then have "x / p2 (ulp_exp x) = of_int m * p2 (int k)" by (simp add: u_def)
  also have "\<dots> = of_int (m * 2 ^ k)" by (simp add: p2_nat)
  finally have q: "x / p2 (ulp_exp x) = of_int (m * 2 ^ k)" .
  have "of_int (round_even (x / p2 (ulp_exp x))) * p2 (ulp_exp x) = x"
    unfolding q round_even_of_int using q by (metis nonzero_divide_eq_eq p2_nz)
  then show ?thesis using False assms(4) by (simp add: rnd_def p2_def Let_def)
qed



lemma round_even_abs_le:
  assumes "\<bar>r\<bar> < of_int N"
  shows "\<bar>round_even r\<bar> \<le> N"
proof -
  have "\<bar>of_int (round_even r) - r\<bar> \<le> 1/2" by (rule round_even_bounds)
  then have "\<bar>(of_int (round_even r) :: real)\<bar> < of_int N + 1" using assms by linarith
  then have "(of_int \<bar>round_even r\<bar> :: real) < of_int (N + 1)" by simp
  then have "\<bar>round_even r\<bar> < N + 1" by (simp only: of_int_less_iff)
  then show ?thesis by simp
qed

lemma rnd_cases:
  assumes "x \<noteq> 0"
  obtains n where "\<bar>n\<bar> \<le> 2 ^ 24" "n = round_even (x / p2 (ulp_exp x))"
    "rnd x = (if 2 ^ 128 \<le> \<bar>of_int n * p2 (ulp_exp x)\<bar> then (if 0 < x then PInf else NInf)
              else Fin (of_int n * p2 (ulp_exp x)))"
proof -
  define u where "u = p2 (ulp_exp x)"
  have u0: "0 < u" by (simp add: u_def)
  have "\<bar>x\<bar> < p2 (ulp_exp x + 24)" using abs_lt_ulp assms by blast
  also have "\<dots> = u * 2 ^ 24" using p2_nat [of 24] by (simp add: p2_add u_def)
  finally have "\<bar>x\<bar> / u < 2 ^ 24" using u0 by (simp add: pos_divide_less_eq mult.commute)
  then have "\<bar>x / u\<bar> < of_int (2 ^ 24)" using u0 by (simp add: abs_of_pos)
  then have "\<bar>round_even (x / u)\<bar> \<le> 2 ^ 24" by (rule round_even_abs_le)
  moreover have "rnd x = (if 2 ^ 128 \<le> \<bar>of_int (round_even (x / u)) * u\<bar> then (if 0 < x then PInf else NInf)
              else Fin (of_int (round_even (x / u)) * u))"
    using assms by (simp add: rnd_def Let_def u_def p2_def)
  ultimately show ?thesis using that unfolding u_def by blast
qed

lemma rnd_idem:
  assumes "rnd x = Fin y"
  shows "rnd y = Fin y"
proof (cases "x = 0")
  case True
  with assms show ?thesis by (simp add: rnd_def)
next
  case False
  then obtain n where n: "\<bar>n\<bar> \<le> 2 ^ 24"
    and r: "rnd x = (if 2 ^ 128 \<le> \<bar>of_int n * p2 (ulp_exp x)\<bar> then (if 0 < x then PInf else NInf)
              else Fin (of_int n * p2 (ulp_exp x)))"
    by (rule rnd_cases)
  from r assms have y: "y = of_int n * p2 (ulp_exp x)" and b: "\<bar>y\<bar> < 2 ^ 128"
    by (auto split: if_splits)
  show ?thesis
  proof (cases "\<bar>n\<bar> < 2 ^ 24")
    case True
    show ?thesis by (rule rnd_grid [OF y True ulp_exp_ge b])
  next
    case False
    with n have "\<bar>n\<bar> = 2 ^ 24" by simp
    then have "n = 2 ^ 24 \<or> n = - (2 ^ 24)" by linarith
    then obtain s :: int where s: "\<bar>s\<bar> = 1" "n = s * 2 ^ 24" by (metis abs_1 abs_minus mult_1 mult_minus_left)
    have "y = of_int s * p2 (ulp_exp x + 24)"
      using y s(2) p2_nat [of 24] by (simp add: p2_add)
    moreover have "\<bar>s\<bar> < 2 ^ 24" using s(1) by simp
    moreover have "- 149 \<le> ulp_exp x + 24" using ulp_exp_ge [of x] by simp
    ultimately show ?thesis using b rnd_grid by blast
  qed
qed

lemma rnd_0 [simp]: "rnd 0 = Fin 0" by (simp add: rnd_def)

lemma rnd_of_int:
  assumes "\<bar>m\<bar> < 2 ^ 24"
  shows "rnd (of_int m) = Fin (of_int m)"
proof -
  have "\<bar>(of_int m :: real)\<bar> < of_int (2 ^ 24)" using assms by (simp only: of_int_abs [symmetric] of_int_less_iff)
  then have "\<bar>(of_int m :: real)\<bar> < 2 ^ 128" by simp
  then show ?thesis using rnd_grid [of "of_int m" m 0] assms by simp
qed

lemma rnd_1 [simp]: "rnd 1 = Fin 1" using rnd_of_int [of 1] by simp
lemma rnd_m1 [simp]: "rnd (- 1) = Fin (- 1)" using rnd_of_int [of "- 1"] by simp
lemma rnd_2 [simp]: "rnd 2 = Fin 2" using rnd_of_int [of 2] by simp
lemma rnd_3 [simp]: "rnd 3 = Fin 3" using rnd_of_int [of 3] by simp

lemma ulp_exp_le_of_bound:
  assumes "x \<noteq> 0" "\<bar>x\<bar> < p2 (k + 24)" "- 149 \<le> k"
  shows "p2 (ulp_exp x) \<le> p2 k"
  by (rule p2_mono) (rule ulp_exp_le [OF assms])

lemma rnd_error:
  assumes "x \<noteq> 0" "\<bar>x\<bar> \<le> 2 ^ 127"
  shows "\<exists>y. rnd x = Fin y \<and> \<bar>y - x\<bar> \<le> p2 (ulp_exp x) / 2"
proof -
  define u where "u = p2 (ulp_exp x)"
  have u0: "0 < u" by (simp add: u_def)
  obtain n where n: "n = round_even (x / p2 (ulp_exp x))"
    and r: "rnd x = (if 2 ^ 128 \<le> \<bar>of_int n * p2 (ulp_exp x)\<bar> then (if 0 < x then PInf else NInf)
              else Fin (of_int n * p2 (ulp_exp x)))"
    by (rule rnd_cases [OF assms(1)])
  have "\<bar>of_int n - x / u\<bar> \<le> 1 / 2" unfolding n u_def by (rule round_even_bounds)
  then have "\<bar>of_int n - x / u\<bar> * u \<le> 1 / 2 * u" using u0 by (simp only: mult_le_cancel_right_pos)
  moreover have "\<bar>of_int n - x / u\<bar> * u = \<bar>of_int n * u - x\<bar>"
  proof -
    have "\<bar>of_int n - x / u\<bar> * u = \<bar>(of_int n - x / u) * u\<bar>" using u0 by (simp add: abs_mult)
    also have "(of_int n - x / u) * u = of_int n * u - x" using u0 by (simp add: field_simps)
    finally show ?thesis .
  qed
  ultimately have err: "\<bar>of_int n * u - x\<bar> \<le> u / 2" by simp
  have "\<bar>x\<bar> < p2 (104 + 24)"
  proof -
    have "p2 (104 + 24) = 2 ^ 128" using p2_nat [of 128] by simp
    moreover have "(2::real) ^ 127 < 2 ^ 128" by simp
    ultimately show ?thesis using assms(2) by linarith
  qed
  then have "u \<le> p2 104" unfolding u_def using ulp_exp_le_of_bound [OF assms(1), of 104] by simp
  also have "p2 104 = 2 ^ 104" using p2_nat [of 104] by simp
  finally have ub: "u \<le> 2 ^ 104" .
  have "\<bar>of_int n * u\<bar> \<le> \<bar>x\<bar> + u / 2" using err by linarith
  also have "\<dots> \<le> 2 ^ 127 + 2 ^ 104 / 2" using assms(2) ub by linarith
  also have "\<dots> < 2 ^ 128" by simp
  finally have "rnd x = Fin (of_int n * u)" using r by (simp add: u_def)
  with err show ?thesis by (simp add: u_def)
qed

lemma rnd_small_finite:
  assumes "\<bar>x\<bar> \<le> 1"
  shows "is_finite (rnd x)"
proof (cases "x = 0")
  case True then show ?thesis by (simp add: is_finite_def)
next
  case False
  have "(1::real) \<le> 2 ^ 127" by simp
  with assms have "\<bar>x\<bar> \<le> 2 ^ 127" by linarith
  with False obtain y where "rnd x = Fin y" using rnd_error by blast
  then show ?thesis by (simp add: is_finite_def)
qed

lemma rnd_eq_0_D:
  assumes "rnd x = Fin 0"
  shows "\<bar>x\<bar> \<le> p2 (- 150)"
proof (cases "x = 0")
  case True then show ?thesis using less_imp_le [OF p2_pos [of "- 150"]] by simp
next
  case False
  define u where "u = p2 (ulp_exp x)"
  have u0: "0 < u" by (simp add: u_def)
  obtain n where n: "n = round_even (x / u)"
    and r: "rnd x = (if 2 ^ 128 \<le> \<bar>of_int n * u\<bar> then (if 0 < x then PInf else NInf)
              else Fin (of_int n * u))"
    unfolding u_def by (rule rnd_cases [OF False])
  from r assms have "of_int n * u = 0" by (auto split: if_splits)
  then have n0: "n = 0" using u0 by simp
  have "\<bar>of_int n - x / u\<bar> \<le> 1 / 2" unfolding n by (rule round_even_bounds)
  then have "\<bar>x\<bar> / u \<le> 1 / 2" using n0 u0 by (simp add: abs_of_pos)
  then have xu: "\<bar>x\<bar> \<le> u / 2" using u0 by (simp add: field_simps)
  have br: "p2 \<lfloor>log 2 \<bar>x\<bar>\<rfloor> \<le> \<bar>x\<bar>" using log2_bracket [of "\<bar>x\<bar>"] False by simp
  have h: "u / 2 = p2 (ulp_exp x - 1)" using p2_nat [of 1] by (simp add: u_def p2_diff)
  from xu br have "p2 \<lfloor>log 2 \<bar>x\<bar>\<rfloor> \<le> p2 (ulp_exp x - 1)" unfolding h by linarith
  then have "\<lfloor>log 2 \<bar>x\<bar>\<rfloor> \<le> ulp_exp x - 1" by (simp add: p2_def)
  then have "\<lfloor>log 2 \<bar>x\<bar>\<rfloor> \<le> max \<lfloor>log 2 \<bar>x\<bar>\<rfloor> (- 126) - 24" by (simp add: ulp_exp_def)
  then have "ulp_exp x = - 149" unfolding ulp_exp_def by linarith
  with xu h show ?thesis by simp
qed


lemma rnd_eval:
  assumes "p2 k \<le> \<bar>x\<bar>" "\<bar>x\<bar> < p2 (k + 1)" "- 126 \<le> k" "k \<le> 126"
  shows "rnd x = Fin (of_int (round_even (x / p2 (k - 23))) * p2 (k - 23))"
proof -
  have x0: "x \<noteq> 0" using assms(1) p2_pos [of k] by (cases "x = 0") (simp_all add: not_le)
  have fl: "\<lfloor>log 2 \<bar>x\<bar>\<rfloor> = k" using assms(1,2) by (rule floor_log2_p2)
  have ue: "ulp_exp x = k - 23" using assms(3) by (simp add: ulp_exp_def fl)
  obtain n where n: "\<bar>n\<bar> \<le> 2 ^ 24" "n = round_even (x / p2 (ulp_exp x))"
    and r: "rnd x = (if 2 ^ 128 \<le> \<bar>of_int n * p2 (ulp_exp x)\<bar> then (if 0 < x then PInf else NInf)
              else Fin (of_int n * p2 (ulp_exp x)))"
    by (rule rnd_cases [OF x0])
  have "\<bar>of_int n * p2 (k - 23)\<bar> = of_int \<bar>n\<bar> * p2 (k - 23)" by (simp add: abs_mult abs_of_pos)
  also have "\<dots> \<le> of_int (2 ^ 24) * p2 (k - 23)"
    using n(1) by (intro mult_right_mono) (simp_all only: of_int_le_iff, simp add: less_imp_le)
  also have "\<dots> = p2 (k + 1)" using p2_add [of 24 "k - 23"] p2_nat [of 24] by (simp add: add.commute)
  also have "\<dots> \<le> p2 127" using assms(4) by (intro p2_mono) simp
  also have "\<dots> < 2 ^ 128" using p2_nat [of 127] by simp
  finally show ?thesis using r n(2) by (simp add: ue)
qed


lemma p2_numeral: "p2 (numeral n) = 2 ^ numeral n"
  using p2_nat [of "numeral n"] by simp

lemma p2_neg_numeral: "p2 (- numeral n) = 1 / 2 ^ numeral n"
  using p2_neg_nat [of "numeral n"] by simp

lemma p2_1: "p2 1 = 2" using p2_nat [of 1] by simp
lemma p2_m1: "p2 (- 1) = 1 / 2" using p2_neg_nat [of 1] by simp

lemmas p2_eval = p2_numeral p2_neg_numeral p2_1 p2_m1 p2_0


subsection \<open>Error bounds of one rounding\<close>

lemma round_even_nonneg: "0 \<le> r \<Longrightarrow> 0 \<le> round_even r"
  unfolding round_even_def Let_def by (auto simp: zero_le_floor) 

lemma rnd_nonneg:
  assumes "0 \<le> x" "rnd x = Fin y"
  shows "0 \<le> y"
proof (cases "x = 0")
  case True with assms show ?thesis by simp
next
  case False
  obtain n where n: "\<bar>n\<bar> \<le> 2 ^ 24" "n = round_even (x / p2 (ulp_exp x))"
    and r: "rnd x = (if 2 ^ 128 \<le> \<bar>of_int n * p2 (ulp_exp x)\<bar> then (if 0 < x then PInf else NInf)
              else Fin (of_int n * p2 (ulp_exp x)))"
    by (rule rnd_cases [OF False])
  have "0 \<le> x / p2 (ulp_exp x)"
    by (intro divide_nonneg_nonneg) (simp_all add: assms(1) less_imp_le)
  then have "0 \<le> n" unfolding n(2) by (rule round_even_nonneg)
  moreover from r assms(2) have "y = of_int n * p2 (ulp_exp x)" by (auto split: if_splits)
  ultimately show ?thesis by (simp add: less_imp_le mult_nonneg_nonneg)
qed

lemma p2_ulp_le:
  assumes "x \<noteq> 0"
  shows "p2 (ulp_exp x) \<le> \<bar>x\<bar> / 2 ^ 23 + 1 / 2 ^ 149"
proof (cases "- 126 \<le> \<lfloor>log 2 \<bar>x\<bar>\<rfloor>")
  case True
  then have "ulp_exp x = \<lfloor>log 2 \<bar>x\<bar>\<rfloor> - 23" by (simp add: ulp_exp_def)
  then have "p2 (ulp_exp x) = p2 \<lfloor>log 2 \<bar>x\<bar>\<rfloor> / 2 ^ 23" using p2_nat [of 23] by (simp add: p2_diff)
  also have "\<dots> \<le> \<bar>x\<bar> / 2 ^ 23"
    using log2_bracket [of "\<bar>x\<bar>"] assms by (simp add: divide_right_mono)
  finally show ?thesis by (smt (verit) divide_nonneg_pos zero_less_power zero_less_numeral zero_le_one)
next
  case False
  then have "ulp_exp x = - 149" by (simp add: ulp_exp_def)
  then have "p2 (ulp_exp x) = 1 / 2 ^ 149" using p2_neg_nat [of 149] by simp
  then show ?thesis by simp
qed

lemma p2_less_D: "p2 a < p2 b \<Longrightarrow> a < b"
  by (simp add: p2_def)

lemma p2_ulp_le_normal:
  assumes "1 / 2 ^ 126 \<le> \<bar>x\<bar>"
  shows "p2 (ulp_exp x) \<le> \<bar>x\<bar> / 2 ^ 23"
proof -
  have x0: "0 < \<bar>x\<bar>" using assms by (smt (verit) divide_pos_pos zero_less_power zero_less_numeral zero_less_one)
  have "p2 (- 126) \<le> \<bar>x\<bar>" using assms p2_neg_nat [of 126] by simp
  also have "\<bar>x\<bar> < p2 (\<lfloor>log 2 \<bar>x\<bar>\<rfloor> + 1)" using log2_bracket [of "\<bar>x\<bar>"] x0 by simp
  finally have "- 126 < \<lfloor>log 2 \<bar>x\<bar>\<rfloor> + 1" by (rule p2_less_D)
  then have "ulp_exp x = \<lfloor>log 2 \<bar>x\<bar>\<rfloor> - 23" by (simp add: ulp_exp_def)
  then have "p2 (ulp_exp x) = p2 \<lfloor>log 2 \<bar>x\<bar>\<rfloor> / 2 ^ 23" using p2_nat [of 23] by (simp add: p2_diff)
  also have "\<dots> \<le> \<bar>x\<bar> / 2 ^ 23"
    using log2_bracket [of "\<bar>x\<bar>"] x0 by (simp add: divide_right_mono)
  finally show ?thesis .
qed

lemma rnd_abs_err:
  assumes "\<bar>x\<bar> \<le> 2 ^ 127"
  shows "\<exists>y. rnd x = Fin y \<and> \<bar>y - x\<bar> \<le> \<bar>x\<bar> / 2 ^ 24 + 1 / 2 ^ 150"
proof (cases "x = 0")
  case True then show ?thesis by simp
next
  case False
  from rnd_error [OF False assms] obtain y where y: "rnd x = Fin y" "\<bar>y - x\<bar> \<le> p2 (ulp_exp x) / 2"
    by blast
  have "p2 (ulp_exp x) / 2 \<le> (\<bar>x\<bar> / 2 ^ 23 + 1 / 2 ^ 149) / 2"
    using p2_ulp_le [OF False] by simp
  also have "\<dots> = \<bar>x\<bar> / 2 ^ 24 + 1 / 2 ^ 150" by simp
  finally show ?thesis using y by (intro exI [of _ y]) simp
qed

lemma rnd_rel_err:
  assumes "1 / 2 ^ 126 \<le> \<bar>x\<bar>" "\<bar>x\<bar> \<le> 2 ^ 127"
  shows "\<exists>y. rnd x = Fin y \<and> \<bar>y - x\<bar> \<le> \<bar>x\<bar> / 2 ^ 24"
proof -
  have x0: "x \<noteq> 0" using assms(1) by (smt (verit) divide_pos_pos zero_less_power zero_less_numeral zero_less_one)
  from rnd_error [OF x0 assms(2)] obtain y where y: "rnd x = Fin y" "\<bar>y - x\<bar> \<le> p2 (ulp_exp x) / 2"
    by blast
  have "p2 (ulp_exp x) / 2 \<le> (\<bar>x\<bar> / 2 ^ 23) / 2"
    using p2_ulp_le_normal [OF assms(1)] by simp
  also have "\<dots> = \<bar>x\<bar> / 2 ^ 24" by simp
  finally show ?thesis using y by (intro exI [of _ y]) simp
qed

section \<open>Arithmetic of f32\<close>

lemma Fin_add: "Fin x + Fin y = rnd (x + y)" by (simp add: plus_f32_def)
lemma Fin_sub: "Fin x - Fin y = rnd (x - y)" by (simp add: minus_f32_def)
lemma Fin_mul: "Fin x * Fin y = rnd (x * y)" by (simp add: times_f32_def)
lemma Fin_div: "y \<noteq> 0 \<Longrightarrow> Fin x / Fin y = rnd (x / y)" by (simp add: divide_f32_def)
lemma Fin_neg: "- Fin x = Fin (- x)" by (simp add: uminus_f32_def)

lemma is_f32_rnd: "is_f32 (rnd x)"
  by (cases "rnd x") (auto simp: is_f32_def dest: rnd_idem)

lemma is_f32_0 [simp]: "is_f32 0" by (simp add: is_f32_def zero_f32_def)
lemma is_f32_1 [simp]: "is_f32 1" by (simp add: is_f32_def one_f32_def)

lemma is_f32_add: "is_f32 (a + b)"
  by (cases a; cases b) (simp_all add: plus_f32_def is_f32_rnd, simp_all add: is_f32_def)

lemma is_f32_mul: "is_f32 (a * b)"
  by (cases a; cases b) (simp_all add: times_f32_def is_f32_rnd, simp_all add: is_f32_def signed_inf_def)

lemma mul_one_f32: "is_f32 a \<Longrightarrow> a * 1 = a"
  by (cases a) (simp_all add: times_f32_def one_f32_def is_f32_def signed_inf_def)

lemma mul_zero_f32: "is_finite a \<Longrightarrow> a * 0 = 0"
  by (cases a) (simp_all add: times_f32_def zero_f32_def is_finite_def)

lemma zero_mul_f32: "is_finite a \<Longrightarrow> 0 * a = 0"
  by (cases a) (simp_all add: times_f32_def zero_f32_def is_finite_def)

lemma add_zero_f32: "is_f32 a \<Longrightarrow> a + 0 = a"
  by (cases a) (simp_all add: plus_f32_def zero_f32_def is_f32_def)

lemma sub_self_f32: "is_finite a \<Longrightarrow> a - a = 0"
  by (cases a) (simp_all add: minus_f32_def zero_f32_def is_finite_def)

lemma fmul_commute: "(a::f32) * b = b * a"
  by (cases a; cases b) (auto simp: times_f32_def mult.commute)

lemma is_finite_Fin [simp]: "is_finite (Fin x)" by (simp add: is_finite_def)
lemma is_finite_0 [simp]: "is_finite 0" by (simp add: zero_f32_def)
lemma is_finite_1 [simp]: "is_finite 1" by (simp add: one_f32_def)

lemma sin_1_ge_half: "1 / 2 \<le> sin (1::real)"
proof -
  have "sin (pi / 6) \<le> sin (1::real)"
    by (rule sin_monotone_2pi_le) (use pi_less_4 pi_ge_two pi_gt_zero in linarith)+
  then show ?thesis by (simp add: sin_30)
qed

lemma fsin_1_nz: "fsin (Fin 1) \<noteq> - fsin (Fin 1)"
proof -
  have "is_finite (rnd (sin 1))" by (rule rnd_small_finite) simp
  then obtain y where y: "rnd (sin 1) = Fin y" by (cases "rnd (sin 1)") (simp_all add: is_finite_def)
  have "y \<noteq> 0"
  proof
    assume "y = 0"
    with y have "\<bar>sin (1::real)\<bar> \<le> p2 (- 150)" using rnd_eq_0_D by blast
    moreover have "p2 (- 150) < 1 / 2" using p2_neg_nat [of 150] by simp
    ultimately show False using sin_1_ge_half by linarith
  qed
  then show ?thesis by (simp add: fsin_def y uminus_f32_def)
qed

section \<open>Shared facts on the matrix code\<close>

lemma create_diagonal_matrix_eq:
  "create_diagonal_matrix v = Mat4 (Vec4 v 0 0 0) (Vec4 0 v 0 0) (Vec4 0 0 v 0) (Vec4 0 0 0 v)"
  by (simp add: create_diagonal_matrix_def Mat4_zero_def set_e_def)

lemma create_rotation_z_eq:
  "create_rotation_z angle =
     Mat4 (Vec4 (fcos angle) (fsin angle) 0 0) (Vec4 (- fsin angle) (fcos angle) 0 0)
          (Vec4 0 0 1 0) (Vec4 0 0 0 1)"
  by (simp add: create_rotation_z_def create_diagonal_matrix_eq set_e_def Let_def)

lemma linear_combination_eq:
  "linear_combination (Mat4 (Vec4 x0 y0 z0 w0) (Vec4 x1 y1 z1 w1) (Vec4 x2 y2 z2 w2) (Vec4 x3 y3 z3 w3))
     (Vec4 bx by' bz bw) =
   Vec4 (x0 * bx + x1 * by' + x2 * bz + x3 * bw) (y0 * bx + y1 * by' + y2 * bz + y3 * bw)
        (z0 * bx + z1 * by' + z2 * bz + z3 * bw) (w0 * bx + w1 * by' + w2 * bz + w3 * bw)"
  by (simp add: linear_combination_def mm_shuffle_ps_def)

lemma trans_linear_combination_eq:
  "trans_linear_combination (Mat4 (Vec4 x0 y0 z0 w0) (Vec4 x1 y1 z1 w1) (Vec4 x2 y2 z2 w2) (Vec4 x3 y3 z3 w3))
     (Vec4 bx by' bz bw) =
   Vec4 (x0 * bx + x1 * by' + x2 * bz) (y0 * bx + y1 * by' + y2 * bz)
        (z0 * bx + z1 * by' + z2 * bz) (w0 * bx + w1 * by' + w2 * bz)"
  by (simp add: trans_linear_combination_def mm_shuffle_ps_def)

lemma cross_Vec4_lanes:
  "cross_Vec4 (Vec4 ax ay az aw) (Vec4 bx by' bz bw) =
     Vec4 (ay * bz - az * by') (az * bx - ax * bz) (ax * by' - ay * bx) (aw * bw - aw * bw)"
  by (simp add: cross_Vec4_def mm_shuffle_ps_def)

lemma fsin_fcos_cases:
  obtains (fin) c s where "fcos angle = Fin c" "fsin angle = Fin s" "rnd c = Fin c" "rnd s = Fin s"
  | (nan) "fcos angle = NaN" "fsin angle = NaN"
proof (cases angle)
  case (Fin v)
  have "is_finite (rnd (cos v))" "is_finite (rnd (sin v))" by (rule rnd_small_finite, simp)+
  then obtain c s where cs: "rnd (cos v) = Fin c" "rnd (sin v) = Fin s"
    by (cases "rnd (cos v)"; cases "rnd (sin v)") (simp_all add: is_finite_def)
  then have "rnd c = Fin c" "rnd s = Fin s" by (blast dest: rnd_idem)+
  with cs Fin fin show ?thesis by (simp add: fcos_def fsin_def)
qed (use nan in \<open>simp_all add: fcos_def fsin_def\<close>)

lemma rotation_z_times_x:
  "mul_Mat4_Vec4 (create_rotation_z th) (Vec4 1 0 0 0) = Vec4 (fcos th) (fsin th) 0 0"
proof (cases th rule: fsin_fcos_cases)
  case (fin c s)
  then show ?thesis
    by (simp add: mul_Mat4_Vec4_def create_rotation_z_eq linear_combination_eq
        zero_f32_def one_f32_def Fin_mul Fin_add Fin_neg)
next
  case nan
  then show ?thesis
    by (simp add: mul_Mat4_Vec4_def create_rotation_z_eq linear_combination_eq
        zero_f32_def one_f32_def times_f32_def plus_f32_def uminus_f32_def)
qed

lemma sub_zero_f32: "is_f32 a \<Longrightarrow> a - 0 = a"
  by (cases a) (simp_all add: minus_f32_def zero_f32_def is_f32_def)

lemma rnd_9: "rnd 9 = Fin 9" using rnd_of_int [of 9] by simp
lemma rnd_18: "rnd 18 = Fin 18" using rnd_of_int [of 18] by simp

lemma length_3_0_3: "length_vec_Vec3 (Vec3 (Fin 3) 0 (Fin 3)) = rnd (sqrt 18)"
  by (simp add: zero_f32_def Fin_mul Fin_add rnd_9 rnd_18 sqrt_f32_def)

lemma length_3_0_3_nz: "length_vec_Vec3 (Vec3 (Fin 3) 0 (Fin 3)) \<noteq> 0"
proof
  assume "length_vec_Vec3 (Vec3 (Fin 3) 0 (Fin 3)) = 0"
  then have "rnd (sqrt 18) = 0" by (simp only: length_3_0_3)
  then have "rnd (sqrt 18) = Fin 0" by (simp only: zero_f32_def)
  then have "\<bar>sqrt 18\<bar> \<le> p2 (- 150)" by (rule rnd_eq_0_D)
  moreover have "p2 (- 150) < 1" using p2_neg_nat [of 150] by simp
  moreover have "1 \<le> sqrt 18" by simp
  ultimately show False by linarith
qed

lemma create_look_at_eq:
  assumes "normalize_Vec3 (sub_Vec3 eye target) = Vec3 fx fy fz"
    and "normalize_Vec3 (cross_Vec3 up (Vec3 fx fy fz)) = Vec3 rx ry rz"
    and "cross_Vec3 (Vec3 fx fy fz) (Vec3 rx ry rz) = Vec3 ux uy uz"
  shows "create_look_at eye target up =
           Mat4 (Vec4 rx ux fx 0) (Vec4 ry uy fy 0) (Vec4 rz uz fz 0)
                (Vec4 (- dot_Vec3 (Vec3 rx ry rz) eye) (- dot_Vec3 (Vec3 ux uy uz) eye)
                      (- dot_Vec3 (Vec3 fx fy fz) eye) 1)"
  unfolding create_look_at_def assms Let_def
  by (simp add: Mat4_zero_def set_e_def)


subsection \<open>mod_pi in f32 at three angles\<close>

lemma pi32_2_eq: "Fin 2 * PI32 = Fin (13176795 / 2 ^ 21)"
proof -
  have "rnd (of_int 13176795 * p2 (- 21)) = Fin (of_int 13176795 * p2 (- 21))"
    by (rule rnd_grid [OF refl]) (simp_all add: p2_eval)
  then show ?thesis by (simp add: PI32_def Fin_mul p2_eval)
qed

lemma mod_pi_steps:
  assumes "angle0 + PI32 = ang" "\<bar>ang\<bar> = f" "f / (Fin 2 * PI32) = q"
    "f32_of_s32 (s32_of_f32 q) = kf" "(Fin 2 * PI32) * kf = p" "f - p = r" "r - PI32 = s"
  shows "mod_pi angle0 = (if ang < 0 then - s else s)"
  using assms by (simp add: mod_pi_def Let_def)

lemma fabsf_Fin: "\<bar>Fin x\<bar> = Fin \<bar>x\<bar>" by (simp add: abs_f32_def)
lemma fless_Fin_0: "Fin x < 0 \<longleftrightarrow> x < 0" by (simp add: less_f32_def zero_f32_def)

lemma big_1: "Fin 1000000000 + PI32 = Fin 1000000000"
proof -
  have "rnd (1000000000 + 13176795 / 2 ^ 22) =
      Fin (of_int (round_even ((1000000000 + 13176795 / 2 ^ 22) / p2 (29 - 23))) * p2 (29 - 23))"
    by (rule rnd_eval) (simp_all add: p2_eval)
  then show ?thesis by (simp add: PI32_def Fin_add p2_eval round_even_def Let_def)
qed

lemma big_2: "Fin 1000000000 / (Fin 2 * PI32) = Fin 159154944"
proof -
  have "rnd (1000000000 / (13176795 / 2 ^ 21)) =
      Fin (of_int (round_even ((1000000000 / (13176795 / 2 ^ 21)) / p2 (27 - 23))) * p2 (27 - 23))"
    by (rule rnd_eval) (simp_all add: p2_eval)
  then show ?thesis by (simp add: pi32_2_eq Fin_div p2_eval round_even_def Let_def)
qed

lemma big_3: "f32_of_s32 (s32_of_f32 (Fin 159154944)) = Fin 159154944"
proof -
  have "rnd (of_int 9947184 * p2 4) = Fin (of_int 9947184 * p2 4)"
    by (rule rnd_grid [OF refl]) (simp_all add: p2_eval)
  then show ?thesis by (simp add: s32_of_f32_def s32_of_real_def f32_of_s32_def p2_eval)
qed

lemma big_4: "(Fin 2 * PI32) * Fin 159154944 = Fin 1000000064"
proof -
  have "rnd (13176795 / 2 ^ 21 * 159154944) =
      Fin (of_int (round_even ((13176795 / 2 ^ 21 * 159154944) / p2 (29 - 23))) * p2 (29 - 23))"
    by (rule rnd_eval) (simp_all add: p2_eval)
  then show ?thesis by (simp add: pi32_2_eq Fin_mul p2_eval round_even_def Let_def)
qed

lemma big_5: "Fin 1000000000 - Fin 1000000064 = Fin (- 64)"
  using rnd_of_int [of "- 64"] by (simp add: Fin_sub)

lemma big_6: "Fin (- 64) - PI32 = Fin (- 8800383 / 2 ^ 17)"
proof -
  have "rnd (- 64 - 13176795 / 2 ^ 22) =
      Fin (of_int (round_even ((- 64 - 13176795 / 2 ^ 22) / p2 (6 - 23))) * p2 (6 - 23))"
    by (rule rnd_eval) (simp_all add: p2_eval)
  then show ?thesis by (simp add: PI32_def Fin_sub p2_eval round_even_def Let_def)
qed

lemma mod_pi_big: "mod_pi (Fin 1000000000) = Fin (- 8800383 / 2 ^ 17)"
proof -
  have a: "\<bar>Fin 1000000000\<bar> = Fin 1000000000" by (simp add: fabsf_Fin)
  show ?thesis
    using mod_pi_steps [OF big_1 a big_2 big_3 big_4 big_5 big_6]
    by (simp add: fless_Fin_0)
qed

lemma three_pi: "Fin 3 * PI32 = Fin (9882596 / 2 ^ 20)"
proof -
  have "rnd (3 * (13176795 / 2 ^ 22)) =
      Fin (of_int (round_even ((3 * (13176795 / 2 ^ 22)) / p2 (3 - 23))) * p2 (3 - 23))"
    by (rule rnd_eval) (simp_all add: p2_eval)
  then show ?thesis by (simp add: PI32_def Fin_mul p2_eval round_even_def Let_def)
qed

lemma tp_1: "Fin (9882596 / 2 ^ 20) + PI32 = Fin (13176795 / 2 ^ 20)"
proof -
  have "rnd (9882596 / 2 ^ 20 + 13176795 / 2 ^ 22) =
      Fin (of_int (round_even ((9882596 / 2 ^ 20 + 13176795 / 2 ^ 22) / p2 (3 - 23))) * p2 (3 - 23))"
    by (rule rnd_eval) (simp_all add: p2_eval)
  then show ?thesis by (simp add: PI32_def Fin_add p2_eval round_even_def Let_def)
qed

lemma tp_2: "Fin (13176795 / 2 ^ 20) / (Fin 2 * PI32) = Fin 2"
  by (simp add: pi32_2_eq Fin_div)

lemma tp_3: "f32_of_s32 (s32_of_f32 (Fin 2)) = Fin 2"
  by (simp add: s32_of_f32_def s32_of_real_def f32_of_s32_def)

lemma tp_4: "(Fin 2 * PI32) * Fin 2 = Fin (13176795 / 2 ^ 20)"
proof -
  have "rnd (of_int 13176795 * p2 (- 20)) = Fin (of_int 13176795 * p2 (- 20))"
    by (rule rnd_grid [OF refl]) (simp_all add: p2_eval)
  then show ?thesis by (simp add: pi32_2_eq Fin_mul p2_eval)
qed

lemma tp_5: "Fin (13176795 / 2 ^ 20) - Fin (13176795 / 2 ^ 20) = Fin 0"
  by (simp add: Fin_sub)

lemma tp_6: "Fin 0 - PI32 = Fin (- 13176795 / 2 ^ 22)"
proof -
  have "rnd (of_int (- 13176795) * p2 (- 22)) = Fin (of_int (- 13176795) * p2 (- 22))"
    by (rule rnd_grid [OF refl]) (simp_all add: p2_eval)
  then show ?thesis by (simp add: PI32_def Fin_sub p2_eval)
qed

lemma mod_pi_3pi: "mod_pi (Fin 3 * PI32) = - PI32"
proof -
  have a: "\<bar>Fin (13176795 / 2 ^ 20)\<bar> = Fin (13176795 / 2 ^ 20)" by (simp add: fabsf_Fin)
  have n: "- PI32 = Fin (- 13176795 / 2 ^ 22)" by (simp add: PI32_def Fin_neg)
  show ?thesis unfolding three_pi n
    using mod_pi_steps [OF tp_1 a tp_2 tp_3 tp_4 tp_5 tp_6]
    by (simp add: fless_Fin_0)
qed

lemma tm_1: "- Fin (9882596 / 2 ^ 20) + PI32 = Fin (- 6588397 / 2 ^ 20)"
proof -
  have "rnd (- (9882596 / 2 ^ 20) + 13176795 / 2 ^ 22) =
      Fin (of_int (round_even ((- (9882596 / 2 ^ 20) + 13176795 / 2 ^ 22) / p2 (2 - 23))) * p2 (2 - 23))"
    by (rule rnd_eval) (simp_all add: p2_eval)
  then show ?thesis by (simp add: PI32_def Fin_add Fin_neg p2_eval round_even_def Let_def)
qed

lemma tm_2: "Fin (6588397 / 2 ^ 20) / (Fin 2 * PI32) = Fin (16777215 / 2 ^ 24)"
proof -
  have "rnd ((6588397 / 2 ^ 20) / (13176795 / 2 ^ 21)) =
      Fin (of_int (round_even (((6588397 / 2 ^ 20) / (13176795 / 2 ^ 21)) / p2 (- 1 - 23))) * p2 (- 1 - 23))"
    by (rule rnd_eval) (simp_all add: p2_eval)
  then show ?thesis by (simp add: pi32_2_eq Fin_div p2_eval round_even_def Let_def)
qed

lemma tm_3: "f32_of_s32 (s32_of_f32 (Fin (16777215 / 2 ^ 24))) = Fin 0"
  by (simp add: s32_of_f32_def s32_of_real_def f32_of_s32_def)

lemma tm_4: "Fin (6588397 / 2 ^ 20) - (Fin 2 * PI32) * Fin 0 = Fin (6588397 / 2 ^ 20)"
proof -
  have "rnd (of_int 6588397 * p2 (- 20)) = Fin (of_int 6588397 * p2 (- 20))"
    by (rule rnd_grid [OF refl]) (simp_all add: p2_eval)
  then show ?thesis by (simp add: pi32_2_eq Fin_mul Fin_sub p2_eval)
qed

lemma tm_5: "Fin (6588397 / 2 ^ 20) - PI32 = Fin (13176793 / 2 ^ 22)"
proof -
  have "rnd (of_int 13176793 * p2 (- 22)) = Fin (of_int 13176793 * p2 (- 22))"
    by (rule rnd_grid [OF refl]) (simp_all add: p2_eval)
  then show ?thesis by (simp add: PI32_def Fin_sub p2_eval)
qed

lemma mod_pi_m3pi: "mod_pi (- (Fin 3 * PI32)) = Fin (- 13176793 / 2 ^ 22)"
proof -
  have a: "\<bar>Fin (- 6588397 / 2 ^ 20)\<bar> = Fin (6588397 / 2 ^ 20)" by (simp add: fabsf_Fin)
  show ?thesis unfolding three_pi
    using mod_pi_steps [OF tm_1 a tm_2 tm_3 refl tm_4 tm_5]
    by (simp add: fless_Fin_0 Fin_neg)
qed

subsection \<open>The inverse in exact arithmetic\<close>





subsection \<open>The inverse in f32 at a matrix of small integers\<close>































section \<open>Error analysis of normalize\<close>

subsection \<open>Real arithmetic\<close>

lemma sum4_err:
  fixes q1 q2 q3 q4 s1 s2 s3 s4 S1 S2 S3 h :: real
  assumes "0 \<le> q1" "0 \<le> q2" "0 \<le> q3" "0 \<le> q4"
    and "0 \<le> h" "2 ^ 30 * h \<le> q1 + q2 + q3 + q4"
    and "q1 - q1 / 2 ^ 24 - h \<le> s1" "s1 \<le> q1 + q1 / 2 ^ 24 + h"
    and "q2 - q2 / 2 ^ 24 - h \<le> s2" "s2 \<le> q2 + q2 / 2 ^ 24 + h"
    and "q3 - q3 / 2 ^ 24 - h \<le> s3" "s3 \<le> q3 + q3 / 2 ^ 24 + h"
    and "q4 - q4 / 2 ^ 24 - h \<le> s4" "s4 \<le> q4 + q4 / 2 ^ 24 + h"
    and "(s1 + s2) - (s1 + s2) / 2 ^ 24 - h \<le> S1" "S1 \<le> (s1 + s2) + (s1 + s2) / 2 ^ 24 + h"
    and "(S1 + s3) - (S1 + s3) / 2 ^ 24 - h \<le> S2" "S2 \<le> (S1 + s3) + (S1 + s3) / 2 ^ 24 + h"
    and "(S2 + s4) - (S2 + s4) / 2 ^ 24 - h \<le> S3" "S3 \<le> (S2 + s4) + (S2 + s4) / 2 ^ 24 + h"
  shows "(q1 + q2 + q3 + q4) - (q1 + q2 + q3 + q4) / 2 ^ 21 \<le> S3"
    and "S3 \<le> (q1 + q2 + q3 + q4) + (q1 + q2 + q3 + q4) / 2 ^ 21"
proof -
  have e: "(2::real) ^ 24 = 16777216" "(2::real) ^ 21 = 2097152" "(2::real) ^ 30 = 1073741824"
    by simp_all
  note a = assms [unfolded e]
  have P1a: "(q1 + q2) - (q1 + q2) / 16777216 - 2 * h \<le> s1 + s2"
    using a(7-10) by argo
  have P1b: "s1 + s2 \<le> (q1 + q2) + (q1 + q2) / 16777216 + 2 * h"
    using a(7-10) by argo
  have B1a: "(q1 + q2) - 3 * (q1 + q2) / 16777216 - 4 * h \<le> S1"
    using P1a P1b a(15,16) a(1,2,5) by argo
  have B1b: "S1 \<le> (q1 + q2) + 3 * (q1 + q2) / 16777216 + 4 * h"
    using P1a P1b a(15,16) a(1,2,5) by argo
  have P2a: "(q1 + q2 + q3) - 3 * (q1 + q2 + q3) / 16777216 - 5 * h \<le> S1 + s3"
    using B1a B1b a(11,12) a(3) by argo
  have P2b: "S1 + s3 \<le> (q1 + q2 + q3) + 3 * (q1 + q2 + q3) / 16777216 + 5 * h"
    using B1a B1b a(11,12) a(3) by argo
  have B2a: "(q1 + q2 + q3) - 5 * (q1 + q2 + q3) / 16777216 - 7 * h \<le> S2"
    using P2a P2b a(17,18) a(1,2,3,5) by argo
  have B2b: "S2 \<le> (q1 + q2 + q3) + 5 * (q1 + q2 + q3) / 16777216 + 7 * h"
    using P2a P2b a(17,18) a(1,2,3,5) by argo
  have P3a: "(q1 + q2 + q3 + q4) - 5 * (q1 + q2 + q3 + q4) / 16777216 - 8 * h \<le> S2 + s4"
    using B2a B2b a(13,14) a(4) by argo
  have P3b: "S2 + s4 \<le> (q1 + q2 + q3 + q4) + 5 * (q1 + q2 + q3 + q4) / 16777216 + 8 * h"
    using B2a B2b a(13,14) a(4) by argo
  have B3a: "(q1 + q2 + q3 + q4) - 7 * (q1 + q2 + q3 + q4) / 16777216 - 10 * h \<le> S3"
    using P3a P3b a(19,20) a(1,2,3,4,5) by argo
  have B3b: "S3 \<le> (q1 + q2 + q3 + q4) + 7 * (q1 + q2 + q3 + q4) / 16777216 + 10 * h"
    using P3a P3b a(19,20) a(1,2,3,4,5) by argo
  show "(q1 + q2 + q3 + q4) - (q1 + q2 + q3 + q4) / 2 ^ 21 \<le> S3"
    unfolding e using B3a a(6) a(1-5) by argo
  show "S3 \<le> (q1 + q2 + q3 + q4) + (q1 + q2 + q3 + q4) / 2 ^ 21"
    unfolding e using B3b a(6) a(1-5) by argo
qed

lemma sqrt_err:
  fixes T S :: real
  assumes "0 < T" "T - T / 2 ^ 21 \<le> S" "S \<le> T + T / 2 ^ 21"
  shows "sqrt T - sqrt T / 2 ^ 21 \<le> sqrt S" and "sqrt S \<le> sqrt T + sqrt T / 2 ^ 21"
proof -
  define N where "N = sqrt T"
  have N0: "0 < N" using assms(1) by (simp add: N_def)
  have NN: "N * N = T" using assms(1) by (simp add: N_def)
  have lo0: "0 \<le> N - N / 2 ^ 21" using N0 by (simp add: field_simps)
  have "(N - N / 2 ^ 21) * (N - N / 2 ^ 21) = T * ((1 - 1 / 2 ^ 21) * (1 - 1 / 2 ^ 21))"
    unfolding NN [symmetric] by (simp add: algebra_simps)
  also have "\<dots> \<le> T * (1 - 1 / 2 ^ 21)"
    using assms(1) by (intro mult_left_mono) simp_all
  also have "\<dots> = T - T / 2 ^ 21" by (simp add: algebra_simps)
  also note assms(2)
  finally have "sqrt ((N - N / 2 ^ 21) * (N - N / 2 ^ 21)) \<le> sqrt S" by (rule real_sqrt_le_mono)
  moreover have "sqrt ((N - N / 2 ^ 21) * (N - N / 2 ^ 21)) = N - N / 2 ^ 21"
    using lo0 by (simp only: real_sqrt_abs2 abs_of_nonneg)
  ultimately show "sqrt T - sqrt T / 2 ^ 21 \<le> sqrt S" unfolding N_def by (simp only:)
  have hi0: "0 \<le> N + N / 2 ^ 21" using N0 by simp
  have "S \<le> T + T / 2 ^ 21" by (rule assms(3))
  also have "\<dots> = T * (1 + 1 / 2 ^ 21)" by (simp add: algebra_simps)
  also have "\<dots> \<le> T * ((1 + 1 / 2 ^ 21) * (1 + 1 / 2 ^ 21))"
    using assms(1) by (intro mult_left_mono) simp_all
  also have "\<dots> = (N + N / 2 ^ 21) * (N + N / 2 ^ 21)"
    unfolding NN [symmetric] by (simp add: algebra_simps)
  finally have "sqrt S \<le> sqrt ((N + N / 2 ^ 21) * (N + N / 2 ^ 21))" by (rule real_sqrt_le_mono)
  moreover have "sqrt ((N + N / 2 ^ 21) * (N + N / 2 ^ 21)) = N + N / 2 ^ 21"
    using hi0 by (simp only: real_sqrt_abs2 abs_of_nonneg)
  ultimately show "sqrt S \<le> sqrt T + sqrt T / 2 ^ 21" unfolding N_def by (simp only:)
qed

lemma recip_err:
  fixes N L :: real
  assumes "0 < N" "N - N / 2 ^ 20 \<le> L" "L \<le> N + N / 2 ^ 20"
  shows "0 < L" and "1 / N - (1 / N) / 2 ^ 19 \<le> 1 / L" and "1 / L \<le> 1 / N + (1 / N) / 2 ^ 19"
proof -
  have c: "0 < N * (1 - 1 / 2 ^ 20)" using assms(1) by simp
  have lo: "N * (1 - 1 / 2 ^ 20) \<le> L" using assms(2) by (simp add: algebra_simps)
  have hi: "L \<le> N * (1 + 1 / 2 ^ 20)" using assms(3) by (simp add: algebra_simps)
  show L0: "0 < L" using c lo by linarith
  have "1 / L \<le> 1 / (N * (1 - 1 / 2 ^ 20))" using c lo by (intro divide_left_mono) simp_all
  also have "\<dots> = (1 / N) * (1 / (1 - 1 / 2 ^ 20))" by simp
  also have "\<dots> \<le> (1 / N) * (1 + 1 / 2 ^ 19)"
    using assms(1) by (intro mult_left_mono) simp_all
  also have "\<dots> = 1 / N + (1 / N) / 2 ^ 19" by (simp add: algebra_simps)
  finally show "1 / L \<le> 1 / N + (1 / N) / 2 ^ 19" .
  have "1 / N - (1 / N) / 2 ^ 19 = (1 / N) * (1 - 1 / 2 ^ 19)" by (simp add: algebra_simps)
  also have "\<dots> \<le> (1 / N) * (1 / (1 + 1 / 2 ^ 20))"
    using assms(1) by (intro mult_left_mono) simp_all
  also have "\<dots> = 1 / (N * (1 + 1 / 2 ^ 20))" by simp
  also have "\<dots> \<le> 1 / L" using L0 hi by (intro divide_left_mono) simp_all
  finally show "1 / N - (1 / N) / 2 ^ 19 \<le> 1 / L" .
qed

lemma comp_err:
  fixes a N m ob h :: real
  assumes "0 < N" "1 / N - (1 / N) / 2 ^ 18 \<le> m" "m \<le> 1 / N + (1 / N) / 2 ^ 18"
    and "\<bar>ob - a * m\<bar> \<le> \<bar>a * m\<bar> / 2 ^ 24 + h"
  shows "\<bar>ob - a / N\<bar> \<le> \<bar>a / N\<bar> / 2 ^ 17 + h"
proof -
  define w where "w = 1 / N"
  define u where "u = \<bar>a / N\<bar>"
  have w0: "0 < w" using assms(1) by (simp add: w_def)
  have u: "u = \<bar>a\<bar> * w" using assms(1) by (simp add: u_def w_def abs_mult abs_divide)
  have "\<bar>m - w\<bar> \<le> w / 2 ^ 18" using assms(2,3) unfolding w_def by (simp add: abs_le_iff)
  then have "\<bar>a\<bar> * \<bar>m - w\<bar> \<le> \<bar>a\<bar> * (w / 2 ^ 18)" by (intro mult_left_mono) simp_all
  then have d1: "\<bar>a * m - a / N\<bar> \<le> u / 2 ^ 18"
    unfolding u by (simp add: w_def abs_mult [symmetric] algebra_simps)
  have "\<bar>a * m\<bar> \<le> \<bar>a / N\<bar> + \<bar>a * m - a / N\<bar>" by argo
  with d1 have d2: "\<bar>a * m\<bar> \<le> u + u / 2 ^ 18" unfolding u_def by argo
  have "\<bar>ob - a / N\<bar> \<le> \<bar>ob - a * m\<bar> + \<bar>a * m - a / N\<bar>" by argo
  moreover have "\<bar>a * m\<bar> / 2 ^ 24 \<le> (u + u / 2 ^ 18) / 2 ^ 24"
    using d2 by (intro divide_right_mono) simp_all
  ultimately have "\<bar>ob - a / N\<bar> \<le> (u + u / 2 ^ 18) / 2 ^ 24 + h + u / 2 ^ 18"
    using assms(4) d1 by linarith
  moreover have "0 \<le> u" by (simp add: u_def)
  ultimately show ?thesis unfolding u_def [symmetric] by (simp add: field_simps)
qed

lemma sq_err:
  fixes t ob h :: real
  assumes "\<bar>t\<bar> \<le> 1" "0 \<le> h" "h \<le> 1 / 4" "\<bar>ob - t\<bar> \<le> \<bar>t\<bar> / 2 ^ 17 + h"
  shows "\<bar>ob * ob - t * t\<bar> \<le> (1 / 2 ^ 16 + 1 / 2 ^ 34) * (t * t) + 3 * h"
proof -
  define u where "u = \<bar>t\<bar>"
  define D where "D = \<bar>ob - t\<bar>"
  have u01: "0 \<le> u" "u \<le> 1" using assms(1) by (simp_all add: u_def)
  have D0: "0 \<le> D" by (simp add: D_def)
  have Db: "D \<le> u / 2 ^ 17 + h" using assms(4) by (simp add: D_def u_def)
  have "ob * ob - t * t = (ob - t) * (2 * t + (ob - t))" by (simp add: algebra_simps)
  then have "\<bar>ob * ob - t * t\<bar> = D * \<bar>2 * t + (ob - t)\<bar>" by (simp add: abs_mult D_def)
  also have "\<dots> \<le> D * (2 * u + D)"
  proof (intro mult_left_mono D0)
    show "\<bar>2 * t + (ob - t)\<bar> \<le> 2 * u + D" unfolding u_def D_def by argo
  qed
  also have "\<dots> \<le> (u / 2 ^ 17 + h) * (2 * u + (u / 2 ^ 17 + h))"
    using Db D0 u01 assms(2) by (intro mult_mono) simp_all
  also have "\<dots> = (1 / 2 ^ 16 + 1 / 2 ^ 34) * (u * u) + (2 + 1 / 2 ^ 16) * (u * h) + h * h"
    by (simp add: field_simps)
  also have "\<dots> \<le> (1 / 2 ^ 16 + 1 / 2 ^ 34) * (u * u) + (2 + 1 / 2 ^ 16) * h + h * (1 / 4)"
  proof -
    have "u * h \<le> 1 * h" using u01 assms(2) by (intro mult_right_mono) simp_all
    then have "(2 + 1 / 2 ^ 16) * (u * h) \<le> (2 + 1 / 2 ^ 16) * h" by (intro mult_left_mono) simp_all
    moreover have "h * h \<le> h * (1 / 4)" using assms(2,3) by (intro mult_left_mono) simp_all
    ultimately show ?thesis by (intro add_mono order_refl)
  qed
  also have "\<dots> \<le> (1 / 2 ^ 16 + 1 / 2 ^ 34) * (u * u) + 3 * h" using assms(2) by simp
  also have "u * u = t * t" by (simp add: u_def)
  finally show ?thesis .
qed

lemma norm4_err:
  fixes t1 t2 t3 t4 o1 o2 o3 o4 h :: real
  assumes "t1 * t1 + t2 * t2 + t3 * t3 + t4 * t4 = 1"
    and "0 \<le> h" "h \<le> 1 / 2 ^ 40"
    and "\<bar>o1 - t1\<bar> \<le> \<bar>t1\<bar> / 2 ^ 17 + h" "\<bar>o2 - t2\<bar> \<le> \<bar>t2\<bar> / 2 ^ 17 + h"
    and "\<bar>o3 - t3\<bar> \<le> \<bar>t3\<bar> / 2 ^ 17 + h" "\<bar>o4 - t4\<bar> \<le> \<bar>t4\<bar> / 2 ^ 17 + h"
  shows "\<bar>sqrt (o1 * o1 + o2 * o2 + o3 * o3 + o4 * o4) - 1\<bar> \<le> 1 / 10 ^ 5"
proof -
  have sq: "\<bar>x\<bar> \<le> 1" if "x * x \<le> 1" for x :: real
    using that by (metis abs_le_square_iff abs_one mult_1 power2_eq_square)
  have n1: "0 \<le> t1 * t1" "0 \<le> t2 * t2" "0 \<le> t3 * t3" "0 \<le> t4 * t4" by simp_all
  have b: "\<bar>t1\<bar> \<le> 1" "\<bar>t2\<bar> \<le> 1" "\<bar>t3\<bar> \<le> 1" "\<bar>t4\<bar> \<le> 1"
    using assms(1) n1 by (intro sq; linarith)+
  have h4: "h \<le> 1 / 4" using assms(3) by (rule order_trans) simp
  note e = sq_err [OF b(1) assms(2) h4 assms(4)] sq_err [OF b(2) assms(2) h4 assms(5)]
    sq_err [OF b(3) assms(2) h4 assms(6)] sq_err [OF b(4) assms(2) h4 assms(7)]
  define X where "X = o1 * o1 + o2 * o2 + o3 * o3 + o4 * o4"
  define Y where "Y = t1 * t1 + t2 * t2 + t3 * t3 + t4 * t4"
  have "\<bar>X - Y\<bar> \<le> (1 / 2 ^ 16 + 1 / 2 ^ 34) * Y + 12 * h"
    unfolding X_def Y_def using e by argo
  then have "\<bar>X - 1\<bar> \<le> (1 / 2 ^ 16 + 1 / 2 ^ 34) * 1 + 12 * h"
    using assms(1) by (simp only: Y_def)
  then have X: "(1 - 1 / 10 ^ 5) * (1 - 1 / 10 ^ 5) \<le> X" "X \<le> (1 + 1 / 10 ^ 5) * (1 + 1 / 10 ^ 5)"
    using assms(2,3) by (simp_all add: abs_le_iff)
  have "sqrt ((1 - 1 / 10 ^ 5) * (1 - 1 / 10 ^ 5)) \<le> sqrt X" using X(1) by (rule real_sqrt_le_mono)
  moreover have "sqrt X \<le> sqrt ((1 + 1 / 10 ^ 5) * (1 + 1 / 10 ^ 5))" using X(2) by (rule real_sqrt_le_mono)
  moreover have "sqrt ((1 - 1 / 10 ^ 5) * (1 - 1 / 10 ^ 5)) = 1 - 1 / 10 ^ 5"
    by (simp only: real_sqrt_abs2) simp
  moreover have "sqrt ((1 + 1 / 10 ^ 5) * (1 + 1 / 10 ^ 5)) = 1 + 1 / 10 ^ 5"
    by (simp only: real_sqrt_abs2) simp
  ultimately show ?thesis unfolding X_def by (simp only: abs_le_iff) argo
qed

lemma length_bound:
  fixes N R L :: real
  assumes "0 \<le> N" "N - N / 2 ^ 21 \<le> R" "R \<le> N + N / 2 ^ 21" "R - R / 2 ^ 24 \<le> L" "L \<le> R + R / 2 ^ 24"
  shows "N - N / 2 ^ 20 \<le> L" "L \<le> N + N / 2 ^ 20"
proof -
  have e: "(2::real) ^ 24 = 16777216" "(2::real) ^ 21 = 2097152" "(2::real) ^ 20 = 1048576" by simp_all
  show "N - N / 2 ^ 20 \<le> L" using assms unfolding e by argo
  show "L \<le> N + N / 2 ^ 20" using assms unfolding e by argo
qed

lemma multi_bound:
  fixes w I m :: real
  assumes "0 \<le> w" "w - w / 2 ^ 19 \<le> I" "I \<le> w + w / 2 ^ 19" "I - I / 2 ^ 24 \<le> m" "m \<le> I + I / 2 ^ 24"
  shows "w - w / 2 ^ 18 \<le> m" "m \<le> w + w / 2 ^ 18"
proof -
  have e: "(2::real) ^ 24 = 16777216" "(2::real) ^ 19 = 524288" "(2::real) ^ 18 = 262144" by simp_all
  show "w - w / 2 ^ 18 \<le> m" using assms unfolding e by argo
  show "m \<le> w + w / 2 ^ 18" using assms unfolding e by argo
qed

lemma half_double:
  fixes x y :: real
  assumes "0 \<le> x" "x - x / 2 ^ 18 \<le> y" "y \<le> x + x / 2 ^ 18"
  shows "x / 2 \<le> y" "y \<le> 2 * x"
proof -
  have e: "(2::real) ^ 18 = 262144" by simp
  show "x / 2 \<le> y" using assms unfolding e by argo
  show "y \<le> 2 * x" using assms unfolding e by argo
qed

lemma widen:
  fixes x y :: real
  assumes "0 \<le> x" "x - x / 2 ^ k \<le> y" "y \<le> x + x / 2 ^ k" "18 \<le> k"
  shows "x - x / 2 ^ 18 \<le> y" "y \<le> x + x / 2 ^ 18"
proof -
  have "(2::real) ^ 18 \<le> 2 ^ k" using assms(4) by (intro power_increasing) simp_all
  then have "x / 2 ^ k \<le> x / 2 ^ 18" using assms(1) by (intro divide_left_mono) simp_all
  then show "x - x / 2 ^ 18 \<le> y" "y \<le> x + x / 2 ^ 18" using assms(2,3) by linarith+
qed

lemma partial_sum_bounds:
  fixes q s B h :: real
  assumes "0 \<le> q" "q \<le> B" "h \<le> B" "s \<le> q + q / 2 ^ 24 + h"
  shows "s \<le> 3 * B"
proof -
  have e: "(2::real) ^ 24 = 16777216" by simp
  show ?thesis using assms unfolding e by argo
qed

lemma rounded_sum_bound:
  fixes x y B h :: real
  assumes "0 \<le> x" "x \<le> c * B" "h \<le> B" "0 \<le> B" "y \<le> x + x / 2 ^ 24 + h" "0 \<le> c"
  shows "y \<le> (2 * c + 1) * B"
proof -
  have e: "(2::real) ^ 24 = 16777216" by simp
  have "x / 16777216 \<le> x" using assms(1) by simp
  then have "y \<le> 2 * x + h" using assms(5) unfolding e by linarith
  also have "\<dots> \<le> 2 * (c * B) + B" using assms(2,3) by linarith
  finally show ?thesis by (simp add: algebra_simps)
qed

subsection \<open>The rounded operations\<close>

lemma rnd_step:
  assumes "0 \<le> x" "x \<le> 2 ^ 127"
  shows "\<exists>y. rnd x = Fin y \<and> 0 \<le> y \<and> x - x / 2 ^ 24 - 1 / 2 ^ 150 \<le> y \<and> y \<le> x + x / 2 ^ 24 + 1 / 2 ^ 150"
proof -
  have "\<bar>x\<bar> \<le> 2 ^ 127" using assms by simp
  then obtain y where y: "rnd x = Fin y" "\<bar>y - x\<bar> \<le> \<bar>x\<bar> / 2 ^ 24 + 1 / 2 ^ 150"
    using rnd_abs_err by blast
  have "0 \<le> y" using assms(1) y(1) by (rule rnd_nonneg)
  moreover have "\<bar>y - x\<bar> \<le> x / 2 ^ 24 + 1 / 2 ^ 150" using y(2) assms(1) by (simp only: abs_of_nonneg)
  then have "x - (x / 2 ^ 24 + 1 / 2 ^ 150) \<le> y \<and> y \<le> x + (x / 2 ^ 24 + 1 / 2 ^ 150)"
    by (simp only: abs_diff_le_iff)
  then have "x - x / 2 ^ 24 - 1 / 2 ^ 150 \<le> y" "y \<le> x + x / 2 ^ 24 + 1 / 2 ^ 150"
    by (simp_all only: diff_diff_eq add.assoc)
  ultimately show ?thesis using y(1) by blast
qed

lemma rnd_step_rel:
  assumes "1 / 2 ^ 126 \<le> x" "x \<le> 2 ^ 127"
  shows "\<exists>y. rnd x = Fin y \<and> x - x / 2 ^ 24 \<le> y \<and> y \<le> x + x / 2 ^ 24"
proof -
  have x0: "0 \<le> x" using assms(1) by (rule order_trans [rotated]) simp
  then have "1 / 2 ^ 126 \<le> \<bar>x\<bar>" "\<bar>x\<bar> \<le> 2 ^ 127" using assms by simp_all
  then obtain y where y: "rnd x = Fin y" "\<bar>y - x\<bar> \<le> \<bar>x\<bar> / 2 ^ 24"
    using rnd_rel_err by blast
  have "\<bar>y - x\<bar> \<le> x / 2 ^ 24" using y(2) x0 by (simp only: abs_of_nonneg)
  then have "x - x / 2 ^ 24 \<le> y" "y \<le> x + x / 2 ^ 24"
    by (simp_all only: abs_diff_le_iff)
  then show ?thesis using y(1) by blast
qed

lemma square_bounds:
  fixes a :: real
  assumes "\<bar>a\<bar> \<le> 2 ^ 60"
  shows "0 \<le> a * a" "a * a \<le> 2 ^ 120"
proof -
  show "0 \<le> a * a" by simp
  have "\<bar>a\<bar> * \<bar>a\<bar> \<le> 2 ^ 60 * 2 ^ 60" using assms by (intro mult_mono) simp_all
  then show "a * a \<le> 2 ^ 120" by (simp add: abs_mult_self_eq)
qed

lemma square_lower:
  fixes a :: real
  assumes "1 / 2 ^ 60 \<le> \<bar>a\<bar>"
  shows "1 / 2 ^ 120 \<le> a * a"
proof -
  have "(1 / 2 ^ 60) * (1 / 2 ^ 60) \<le> \<bar>a\<bar> * \<bar>a\<bar>" using assms by (intro mult_mono) simp_all
  then show ?thesis by (simp add: abs_mult_self_eq)
qed

lemma normalize_Vec4_err:
  fixes a1 a2 a3 a4 :: real
  assumes b: "\<bar>a1\<bar> \<le> 2 ^ 60" "\<bar>a2\<bar> \<le> 2 ^ 60" "\<bar>a3\<bar> \<le> 2 ^ 60" "\<bar>a4\<bar> \<le> 2 ^ 60"
    and l: "1 / 2 ^ 120 \<le> a1 * a1 + a2 * a2 + a3 * a3 + a4 * a4"
  shows "\<exists>o1 o2 o3 o4.
           normalize_Vec4 (Vec4 (Fin a1) (Fin a2) (Fin a3) (Fin a4)) = Vec4 (Fin o1) (Fin o2) (Fin o3) (Fin o4)
         \<and> \<bar>sqrt (o1 * o1 + o2 * o2 + o3 * o3 + o4 * o4) - 1\<bar> \<le> 1 / 10 ^ 5
         \<and> (a3 = 0 \<longrightarrow> o3 = 0) \<and> (a4 = 0 \<longrightarrow> o4 = 0)"
proof -
  define h :: real where "h = 1 / 2 ^ 150"
  define B :: real where "B = 2 ^ 120"
  define T where "T = a1 * a1 + a2 * a2 + a3 * a3 + a4 * a4"
  have h0: "0 \<le> h" and h40: "h \<le> 1 / 2 ^ 40" and hB: "h \<le> B" and B0: "0 \<le> B"
    and B127: "128 * B = 2 ^ 127"
    by (simp_all add: h_def B_def)
  have hT: "2 ^ 30 * h \<le> T" using l by (simp add: h_def T_def)
  have T0: "0 < T" using l unfolding T_def by (rule less_le_trans [rotated]) simp
  note q1 = square_bounds [OF b(1), folded B_def] and q2 = square_bounds [OF b(2), folded B_def]
    and q3 = square_bounds [OF b(3), folded B_def] and q4 = square_bounds [OF b(4), folded B_def]
  have TB: "T \<le> 4 * B" unfolding T_def using q1(2) q2(2) q3(2) q4(2) by linarith
  have le127: "x \<le> 2 ^ 127" if "x \<le> c * B" "c \<le> 128" for x c :: real
  proof -
    have "c * B \<le> 128 * B" using that(2) B0 by (intro mult_right_mono)
    with that(1) show ?thesis unfolding B127 by linarith
  qed
  \<comment> \<open>the four squares\<close>
  from rnd_step [OF q1(1) le127 [of _ 1]] q1(2)
  obtain s1 where s1: "rnd (a1 * a1) = Fin s1" "0 \<le> s1"
      "a1 * a1 - a1 * a1 / 2 ^ 24 - h \<le> s1" "s1 \<le> a1 * a1 + a1 * a1 / 2 ^ 24 + h"
    unfolding h_def by auto
  from rnd_step [OF q2(1) le127 [of _ 1]] q2(2)
  obtain s2 where s2: "rnd (a2 * a2) = Fin s2" "0 \<le> s2"
      "a2 * a2 - a2 * a2 / 2 ^ 24 - h \<le> s2" "s2 \<le> a2 * a2 + a2 * a2 / 2 ^ 24 + h"
    unfolding h_def by auto
  from rnd_step [OF q3(1) le127 [of _ 1]] q3(2)
  obtain s3 where s3: "rnd (a3 * a3) = Fin s3" "0 \<le> s3"
      "a3 * a3 - a3 * a3 / 2 ^ 24 - h \<le> s3" "s3 \<le> a3 * a3 + a3 * a3 / 2 ^ 24 + h"
    unfolding h_def by auto
  from rnd_step [OF q4(1) le127 [of _ 1]] q4(2)
  obtain s4 where s4: "rnd (a4 * a4) = Fin s4" "0 \<le> s4"
      "a4 * a4 - a4 * a4 / 2 ^ 24 - h \<le> s4" "s4 \<le> a4 * a4 + a4 * a4 / 2 ^ 24 + h"
    unfolding h_def by auto
  note sb = partial_sum_bounds [OF q1 hB s1(4)] partial_sum_bounds [OF q2 hB s2(4)]
    partial_sum_bounds [OF q3 hB s3(4)] partial_sum_bounds [OF q4 hB s4(4)]
  \<comment> \<open>the three sums\<close>
  have p1: "0 \<le> s1 + s2" "s1 + s2 \<le> 6 * B" using s1(2) s2(2) sb by linarith+
  from rnd_step [OF p1(1) le127 [OF p1(2)]]
  obtain S1 where S1: "rnd (s1 + s2) = Fin S1" "0 \<le> S1"
      "(s1 + s2) - (s1 + s2) / 2 ^ 24 - h \<le> S1" "S1 \<le> (s1 + s2) + (s1 + s2) / 2 ^ 24 + h"
    unfolding h_def by auto
  have S1B: "S1 \<le> 13 * B" using rounded_sum_bound [OF p1 hB B0 S1(4)] by simp
  have p2: "0 \<le> S1 + s3" "S1 + s3 \<le> 16 * B" using S1(2) s3(2) S1B sb by linarith+
  from rnd_step [OF p2(1) le127 [OF p2(2)]]
  obtain S2 where S2: "rnd (S1 + s3) = Fin S2" "0 \<le> S2"
      "(S1 + s3) - (S1 + s3) / 2 ^ 24 - h \<le> S2" "S2 \<le> (S1 + s3) + (S1 + s3) / 2 ^ 24 + h"
    unfolding h_def by auto
  have S2B: "S2 \<le> 33 * B" using rounded_sum_bound [OF p2 hB B0 S2(4)] by simp
  have p3: "0 \<le> S2 + s4" "S2 + s4 \<le> 36 * B" using S2(2) s4(2) S2B sb by linarith+
  from rnd_step [OF p3(1) le127 [OF p3(2)]]
  obtain S3 where S3: "rnd (S2 + s4) = Fin S3" "0 \<le> S3"
      "(S2 + s4) - (S2 + s4) / 2 ^ 24 - h \<le> S3" "S3 \<le> (S2 + s4) + (S2 + s4) / 2 ^ 24 + h"
    unfolding h_def by auto
  have dot: "dot_Vec4 (Vec4 (Fin a1) (Fin a2) (Fin a3) (Fin a4)) (Vec4 (Fin a1) (Fin a2) (Fin a3) (Fin a4)) = Fin S3"
    by (simp add: Fin_mul Fin_add s1(1) s2(1) s3(1) s4(1) S1(1) S2(1) S3(1))
  have ST: "T - T / 2 ^ 21 \<le> S3" "S3 \<le> T + T / 2 ^ 21"
    unfolding T_def
    using sum4_err [OF q1(1) q2(1) q3(1) q4(1) h0 hT [unfolded T_def] s1(3,4) s2(3,4) s3(3,4) s4(3,4)
        S1(3,4) S2(3,4) S3(3,4)] by simp_all
  \<comment> \<open>the length\<close>
  define N where "N = sqrt T"
  have N0: "0 < N" using T0 by (simp add: N_def)
  have NN: "N * N = T" using T0 by (simp add: N_def)
  have Nlo: "1 / 2 ^ 60 \<le> N"
  proof -
    have "sqrt ((1 / 2 ^ 60) * (1 / 2 ^ 60)) \<le> sqrt T"
      using l unfolding T_def by (intro real_sqrt_le_mono) simp
    moreover have "sqrt ((1 / 2 ^ 60) * (1 / 2 ^ 60)) = (1 / 2 ^ 60 :: real)"
      by (subst real_sqrt_abs2) simp
    ultimately show ?thesis unfolding N_def by (simp only:)
  qed
  have Nhi: "N \<le> 2 ^ 61"
  proof -
    have "sqrt T \<le> sqrt (2 ^ 61 * 2 ^ 61)"
      using TB unfolding B_def by (intro real_sqrt_le_mono) simp
    moreover have "sqrt (2 ^ 61 * 2 ^ 61) = (2 ^ 61 :: real)"
      by (subst real_sqrt_abs2) simp
    ultimately show ?thesis unfolding N_def by (simp only:)
  qed
  define R where "R = sqrt S3"
  have RN: "N - N / 2 ^ 21 \<le> R" "R \<le> N + N / 2 ^ 21"
    unfolding R_def N_def using sqrt_err [OF T0 ST] by simp_all
  have k21: "(18::nat) \<le> 21" and k19: "(18::nat) \<le> 19" by simp_all
  note RN18 = widen [OF less_imp_le [OF N0] RN k21]
  note Rhd = half_double [OF less_imp_le [OF N0] RN18]
  have Rr: "1 / 2 ^ 126 \<le> R" "R \<le> 2 ^ 127" using Rhd Nlo Nhi by simp_all
  from rnd_step_rel [OF Rr]
  obtain L where L: "rnd R = Fin L" "R - R / 2 ^ 24 \<le> L" "L \<le> R + R / 2 ^ 24" by auto
  note LN = length_bound [OF less_imp_le [OF N0] RN L(2,3)]
  have len: "length_vec_Vec4 (Vec4 (Fin a1) (Fin a2) (Fin a3) (Fin a4)) = Fin L"
    using S3(2) by (simp add: length_vec_Vec4_def dot sqrt_f32_def L(1) [unfolded R_def] del: dot_Vec4.simps)
  \<comment> \<open>its reciprocal\<close>
  define w where "w = 1 / N"
  have w0: "0 < w" using N0 by (simp add: w_def)
  note rec = recip_err [OF N0 LN, folded w_def]
  define I where "I = 1 / L"
  have wlo: "1 / 2 ^ 61 \<le> w" unfolding w_def using Nhi N0 by (intro divide_left_mono) simp_all
  have whi: "w \<le> 2 ^ 60"
  proof -
    have "1 / N \<le> 1 / (1 / 2 ^ 60)" using Nlo N0 by (intro divide_left_mono) simp_all
    then show ?thesis by (simp add: w_def)
  qed
  have Iw: "w - w / 2 ^ 19 \<le> I" "I \<le> w + w / 2 ^ 19" using rec(2,3) by (simp_all add: I_def)
  note I18 = widen [OF less_imp_le [OF w0] Iw k19]
  note Ihd = half_double [OF less_imp_le [OF w0] I18]
  have Ir: "1 / 2 ^ 126 \<le> I" "I \<le> 2 ^ 127" using Ihd wlo whi by simp_all
  from rnd_step_rel [OF Ir]
  obtain m where m: "rnd I = Fin m" "I - I / 2 ^ 24 \<le> m" "m \<le> I + I / 2 ^ 24" by auto
  note mw = multi_bound [OF less_imp_le [OF w0] Iw m(2,3)]
  note mhd = half_double [OF less_imp_le [OF w0] mw]
  have m0: "0 \<le> m" "m \<le> 2 ^ 61" using mhd w0 whi by simp_all
  have multi: "1 / Fin L = Fin m"
    using rec(1) m(1) by (simp add: one_f32_def Fin_div I_def)
  \<comment> \<open>the components\<close>
  have am: "\<bar>a * m\<bar> \<le> 2 ^ 127" if "\<bar>a\<bar> \<le> 2 ^ 60" for a
  proof -
    have "\<bar>a\<bar> * \<bar>m\<bar> \<le> 2 ^ 60 * 2 ^ 61" using that m0 by (intro mult_mono) simp_all
    also have "\<dots> \<le> (2::real) ^ 127" by simp
    finally show ?thesis by (simp add: abs_mult)
  qed
  from rnd_abs_err [OF am [OF b(1)]] obtain o1 where o1: "rnd (a1 * m) = Fin o1"
      "\<bar>o1 - a1 * m\<bar> \<le> \<bar>a1 * m\<bar> / 2 ^ 24 + h" unfolding h_def by auto
  from rnd_abs_err [OF am [OF b(2)]] obtain o2 where o2: "rnd (a2 * m) = Fin o2"
      "\<bar>o2 - a2 * m\<bar> \<le> \<bar>a2 * m\<bar> / 2 ^ 24 + h" unfolding h_def by auto
  from rnd_abs_err [OF am [OF b(3)]] obtain o3 where o3: "rnd (a3 * m) = Fin o3"
      "\<bar>o3 - a3 * m\<bar> \<le> \<bar>a3 * m\<bar> / 2 ^ 24 + h" unfolding h_def by auto
  from rnd_abs_err [OF am [OF b(4)]] obtain o4 where o4: "rnd (a4 * m) = Fin o4"
      "\<bar>o4 - a4 * m\<bar> \<le> \<bar>a4 * m\<bar> / 2 ^ 24 + h" unfolding h_def by auto
  note mw' = mw [unfolded w_def]
  note c = comp_err [OF N0 mw' o1(2)] comp_err [OF N0 mw' o2(2)]
    comp_err [OF N0 mw' o3(2)] comp_err [OF N0 mw' o4(2)]
  have unit: "(a1 / N) * (a1 / N) + (a2 / N) * (a2 / N) + (a3 / N) * (a3 / N) + (a4 / N) * (a4 / N) = 1"
  proof -
    have "(a1 / N) * (a1 / N) + (a2 / N) * (a2 / N) + (a3 / N) * (a3 / N) + (a4 / N) * (a4 / N)
        = T / (N * N)" by (simp add: T_def add_divide_distrib)
    also have "\<dots> = 1" using T0 by (simp add: NN)
    finally show ?thesis .
  qed
  have fin: "\<bar>sqrt (o1 * o1 + o2 * o2 + o3 * o3 + o4 * o4) - 1\<bar> \<le> 1 / 10 ^ 5"
    by (rule norm4_err [OF unit h0 h40 c])
  have "normalize_Vec4 (Vec4 (Fin a1) (Fin a2) (Fin a3) (Fin a4)) = Vec4 (Fin o1) (Fin o2) (Fin o3) (Fin o4)"
    using rec(1)
    by (simp add: normalize_Vec4_def Let_def len multi mm_set_ps1_def Fin_mul o1(1) o2(1) o3(1) o4(1)
        zero_f32_def)
  moreover have "a3 = 0 \<longrightarrow> o3 = 0" "a4 = 0 \<longrightarrow> o4 = 0" using o3(1) o4(1) by auto
  ultimately show ?thesis using fin by blast
qed

lemma moderateE:
  assumes "moderate x"
  obtains a where "x = Fin a" "\<bar>a\<bar> \<le> 2 ^ 60"
  using assms by (cases x) (simp_all add: moderate_def is_finite_def real_of_f32_def)

lemma sum_squares_lower:
  fixes a1 a2 a3 a4 :: real
  assumes "1 / 2 ^ 60 \<le> \<bar>a1\<bar> \<or> 1 / 2 ^ 60 \<le> \<bar>a2\<bar> \<or> 1 / 2 ^ 60 \<le> \<bar>a3\<bar> \<or> 1 / 2 ^ 60 \<le> \<bar>a4\<bar>"
  shows "1 / 2 ^ 120 \<le> a1 * a1 + a2 * a2 + a3 * a3 + a4 * a4"
proof -
  have n: "0 \<le> a1 * a1" "0 \<le> a2 * a2" "0 \<le> a3 * a3" "0 \<le> a4 * a4" by simp_all
  from assms consider "1 / 2 ^ 60 \<le> \<bar>a1\<bar>" | "1 / 2 ^ 60 \<le> \<bar>a2\<bar>" | "1 / 2 ^ 60 \<le> \<bar>a3\<bar>" | "1 / 2 ^ 60 \<le> \<bar>a4\<bar>"
    by blast
  then show ?thesis
  proof cases
    case 1 from square_lower [OF this] n show ?thesis by linarith
  next
    case 2 from square_lower [OF this] n show ?thesis by linarith
  next
    case 3 from square_lower [OF this] n show ?thesis by linarith
  next
    case 4 from square_lower [OF this] n show ?thesis by linarith
  qed
qed

lemma normalize_Vec4_moderate:
  assumes "moderate_Vec4 v"
  shows "finite_Vec4 (normalize_Vec4 v) \<and> \<bar>exact_length_Vec4 (normalize_Vec4 v) - 1\<bar> \<le> 1 / 10 ^ 5"
proof -
  obtain x y z w where v: "v = Vec4 x y z w" by (cases v)
  from assms obtain a1 where a1: "x = Fin a1" "\<bar>a1\<bar> \<le> 2 ^ 60" unfolding v by (auto elim: moderateE)
  from assms obtain a2 where a2: "y = Fin a2" "\<bar>a2\<bar> \<le> 2 ^ 60" unfolding v by (auto elim: moderateE)
  from assms obtain a3 where a3: "z = Fin a3" "\<bar>a3\<bar> \<le> 2 ^ 60" unfolding v by (auto elim: moderateE)
  from assms obtain a4 where a4: "w = Fin a4" "\<bar>a4\<bar> \<le> 2 ^ 60" unfolding v by (auto elim: moderateE)
  from assms have "1 / 2 ^ 60 \<le> \<bar>a1\<bar> \<or> 1 / 2 ^ 60 \<le> \<bar>a2\<bar> \<or> 1 / 2 ^ 60 \<le> \<bar>a3\<bar> \<or> 1 / 2 ^ 60 \<le> \<bar>a4\<bar>"
    by (simp add: v a1 a2 a3 a4 sizeable_def real_of_f32_def)
  then have l: "1 / 2 ^ 120 \<le> a1 * a1 + a2 * a2 + a3 * a3 + a4 * a4" by (rule sum_squares_lower)
  from normalize_Vec4_err [OF a1(2) a2(2) a3(2) a4(2) l]
  show ?thesis unfolding v a1 a2 a3 a4 by (auto simp: real_of_f32_def)
qed

lemma fadd_zero_right: "(a + b) + 0 = (a + b :: f32)"
  by (rule add_zero_f32 [OF is_f32_add])

lemma zero_times_zero: "(0::f32) * 0 = 0"
  by (simp add: zero_f32_def Fin_mul)

lemma length_Vec3_as_Vec4: "length_vec_Vec3 (Vec3 x y z) = length_vec_Vec4 (Vec4 x y z 0)"
  by (simp add: length_vec_Vec4_def zero_times_zero fadd_zero_right)

lemma length_Vec2_as_Vec4: "length_vec_Vec2 (Vec2 x y) = length_vec_Vec4 (Vec4 x y 0 0)"
  by (simp add: length_vec_Vec4_def zero_times_zero fadd_zero_right)

lemma normalize_Vec3_as_Vec4: "normalize_Vec3 (Vec3 x y z) = xyz (normalize_Vec4 (Vec4 x y z 0))"
  unfolding normalize_Vec3.simps length_Vec3_as_Vec4 normalize_Vec4_def Let_def
  by (simp add: mm_set_ps1_def)

lemma normalize_Vec2_as_Vec4:
  "normalize_Vec2 (Vec2 x y) = (case normalize_Vec4 (Vec4 x y 0 0) of Vec4 p q r s \<Rightarrow> Vec2 p q)"
  unfolding normalize_Vec2.simps length_Vec2_as_Vec4 normalize_Vec4_def Let_def
  by (simp add: mm_set_ps1_def)

lemma normalize_Vec3_moderate:
  assumes "moderate_Vec3 v"
  shows "finite_Vec3 (normalize_Vec3 v) \<and> \<bar>exact_length_Vec3 (normalize_Vec3 v) - 1\<bar> \<le> 1 / 10 ^ 5"
proof -
  obtain x y z where v: "v = Vec3 x y z" by (cases v)
  from assms obtain a1 where a1: "x = Fin a1" "\<bar>a1\<bar> \<le> 2 ^ 60" unfolding v by (auto elim: moderateE)
  from assms obtain a2 where a2: "y = Fin a2" "\<bar>a2\<bar> \<le> 2 ^ 60" unfolding v by (auto elim: moderateE)
  from assms obtain a3 where a3: "z = Fin a3" "\<bar>a3\<bar> \<le> 2 ^ 60" unfolding v by (auto elim: moderateE)
  have a4: "\<bar>0::real\<bar> \<le> 2 ^ 60" by simp
  from assms have "1 / 2 ^ 60 \<le> \<bar>a1\<bar> \<or> 1 / 2 ^ 60 \<le> \<bar>a2\<bar> \<or> 1 / 2 ^ 60 \<le> \<bar>a3\<bar> \<or> 1 / 2 ^ 60 \<le> \<bar>0::real\<bar>"
    by (simp add: v a1 a2 a3 sizeable_def real_of_f32_def)
  then have l: "1 / 2 ^ 120 \<le> a1 * a1 + a2 * a2 + a3 * a3 + 0 * 0" by (rule sum_squares_lower)
  from normalize_Vec4_err [OF a1(2) a2(2) a3(2) a4 l]
  obtain o1 o2 o3 o4 where
    n: "normalize_Vec4 (Vec4 (Fin a1) (Fin a2) (Fin a3) (Fin 0)) = Vec4 (Fin o1) (Fin o2) (Fin o3) (Fin o4)"
    and e: "\<bar>sqrt (o1 * o1 + o2 * o2 + o3 * o3 + o4 * o4) - 1\<bar> \<le> 1 / 10 ^ 5" and z: "o4 = 0"
    by auto
  show ?thesis
    unfolding v a1 a2 a3 normalize_Vec3_as_Vec4 zero_f32_def n
    using e z by (simp add: real_of_f32_def)
qed

lemma normalize_Vec2_moderate:
  assumes "moderate_Vec2 v"
  shows "finite_Vec2 (normalize_Vec2 v) \<and> \<bar>exact_length_Vec2 (normalize_Vec2 v) - 1\<bar> \<le> 1 / 10 ^ 5"
proof -
  obtain x y where v: "v = Vec2 x y" by (cases v)
  from assms obtain a1 where a1: "x = Fin a1" "\<bar>a1\<bar> \<le> 2 ^ 60" unfolding v by (auto elim: moderateE)
  from assms obtain a2 where a2: "y = Fin a2" "\<bar>a2\<bar> \<le> 2 ^ 60" unfolding v by (auto elim: moderateE)
  have a4: "\<bar>0::real\<bar> \<le> 2 ^ 60" by simp
  from assms have "1 / 2 ^ 60 \<le> \<bar>a1\<bar> \<or> 1 / 2 ^ 60 \<le> \<bar>a2\<bar> \<or> 1 / 2 ^ 60 \<le> \<bar>0::real\<bar> \<or> 1 / 2 ^ 60 \<le> \<bar>0::real\<bar>"
    by (simp add: v a1 a2 sizeable_def real_of_f32_def)
  then have l: "1 / 2 ^ 120 \<le> a1 * a1 + a2 * a2 + 0 * 0 + 0 * 0" by (rule sum_squares_lower)
  from normalize_Vec4_err [OF a1(2) a2(2) a4 a4 l]
  obtain o1 o2 o3 o4 where
    n: "normalize_Vec4 (Vec4 (Fin a1) (Fin a2) (Fin 0) (Fin 0)) = Vec4 (Fin o1) (Fin o2) (Fin o3) (Fin o4)"
    and e: "\<bar>sqrt (o1 * o1 + o2 * o2 + o3 * o3 + o4 * o4) - 1\<bar> \<le> 1 / 10 ^ 5" and z: "o3 = 0" "o4 = 0"
    by auto
  show ?thesis
    unfolding v a1 a2 normalize_Vec2_as_Vec4 zero_f32_def n
    using e z by (simp add: real_of_f32_def)
qed

lemma sqrt_f32_0: "sqrt_f32 0 = 0"
  by (simp add: sqrt_f32_def zero_f32_def)

lemma zero_plus_zero: "(0::f32) + 0 = 0"
  by (simp add: zero_f32_def Fin_add)

lemma normalize_zero:
  "length_vec_Vec2 (Vec2 0 0) = 0 \<and> normalize_Vec2 (Vec2 0 0) = Vec2 0 0
   \<and> length_vec_Vec3 (Vec3 0 0 0) = 0 \<and> normalize_Vec3 (Vec3 0 0 0) = Vec3 0 0 0
   \<and> length_vec_Vec4 (Vec4 0 0 0 0) = 0 \<and> normalize_Vec4 (Vec4 0 0 0 0) = Vec4 0 0 0 0"
  by (simp add: normalize_Vec4_def length_vec_Vec4_def zero_times_zero zero_plus_zero sqrt_f32_0)

lemma round_even_small:
  assumes "\<bar>r\<bar> < 1 / 2"
  shows "round_even r = 0"
proof -
  have "\<bar>of_int (round_even r) - r\<bar> \<le> 1 / 2" by (rule round_even_bounds)
  with assms have "\<bar>(of_int (round_even r) :: real)\<bar> < 1" by linarith
  then have "\<bar>round_even r\<bar> < 1" by (simp only: of_int_abs [symmetric] of_int_less_1_iff)
  then show ?thesis by simp
qed

lemma rnd_tiny:
  assumes "\<bar>x\<bar> < 1 / 2 ^ 150"
  shows "rnd x = Fin 0"
proof (cases "x = 0")
  case True then show ?thesis by simp
next
  case False
  have "p2 \<lfloor>log 2 \<bar>x\<bar>\<rfloor> \<le> \<bar>x\<bar>" using log2_bracket [of "\<bar>x\<bar>"] False by simp
  also have "\<bar>x\<bar> < p2 (- 150)" using assms p2_neg_nat [of 150] by simp
  finally have "\<lfloor>log 2 \<bar>x\<bar>\<rfloor> < - 150" by (rule p2_less_D)
  then have u: "ulp_exp x = - 149" by (simp add: ulp_exp_def)
  have pv: "p2 (- 149) = 1 / 2 ^ 149" using p2_neg_nat [of 149] by simp
  have "\<bar>x / p2 (- 149)\<bar> = \<bar>x\<bar> * 2 ^ 149" unfolding pv by (simp add: abs_mult)
  also have "\<dots> < (1 / 2 ^ 150) * 2 ^ 149" using assms by (intro mult_strict_right_mono) simp_all
  also have "\<dots> = 1 / 2" by simp
  finally have "round_even (x / p2 (- 149)) = 0" by (rule round_even_small)
  then show ?thesis using False by (simp add: rnd_def Let_def u p2_def)
qed

lemma normalize_tiny: "normalize_Vec3 (Vec3 (Fin (1 / 2 ^ 100)) 0 0) = Vec3 0 0 0"
proof -
  have "rnd (1 / 2 ^ 100 * (1 / 2 ^ 100)) = Fin 0" by (rule rnd_tiny) simp
  then have "length_vec_Vec3 (Vec3 (Fin (1 / 2 ^ 100)) 0 0) = 0"
    by (simp add: Fin_mul zero_times_zero zero_plus_zero sqrt_f32_0 flip: zero_f32_def)
  then show ?thesis by (simp add: Let_def del: length_vec_Vec3.simps)
qed

section \<open>Error analysis of the inverse\<close>

subsection \<open>One rounded operation\<close>



lemma approx_weaken:
  assumes "approx B E a x" "B \<le> B'" "E \<le> E'"
  shows "approx B' E' a x"
  using assms by (auto simp: approx_def)











subsection \<open>Vectors and matrices\<close>










lemma approx3_weaken:
  assumes "approx3 B E a x" "B \<le> B'" "E \<le> E'"
  shows "approx3 B' E' a x"
  using assms by (cases a; cases x) (auto intro: approx_weaken)













subsection \<open>The determinant, the inverse and the product\<close>








subsection \<open>A matrix times its computed inverse\<close>









section \<open>The claims\<close>

subsection \<open>C1: rotation about z applied to the x axis\<close>

text \<open>
  C1 as stated: for every angle \<open>th\<close>, \<open>create_rotation_z th\<close> times the vector
  \<open>(1,0,0)\<close> with \<open>w = 0\<close> is \<open>(cos th, - sin th, 0)\<close>. The code stores
  \<open>e[0][1] = sin_theta\<close>, and \<open>e[0]\<close> is the first column, so the product is the first
  column \<open>(cos th, sin th, 0, 0)\<close>. At \<open>th = 1\<close> the sine is not zero and the stated
  vector differs from the computed one.
\<close>

theorem create_rotation_z_x_axis_counterexample:
  "xyz (mul_Mat4_Vec4 (create_rotation_z (Fin 1)) (Vec4 1 0 0 0))
     \<noteq> Vec3 (fcos (Fin 1)) (- fsin (Fin 1)) 0"
  using fsin_1_nz by (simp add: rotation_z_times_x)

text \<open>
  C1 (amended): for every angle \<open>th\<close>, also an infinite one or NaN,
  \<open>create_rotation_z th\<close> times \<open>(1,0,0,0)\<close> is \<open>(cos th, sin th, 0, 0)\<close>, and the stored
  matrix has \<open>e[0][1] = sin th\<close> and \<open>e[1][0] = - sin th\<close>.
\<close>

theorem create_rotation_z_x_axis:
  "mul_Mat4_Vec4 (create_rotation_z th) (Vec4 1 0 0 0) = Vec4 (fcos th) (fsin th) 0 0
   \<and> e (create_rotation_z th) 0 1 = fsin th \<and> e (create_rotation_z th) 1 0 = - fsin th"
  using rotation_z_times_x [of th] by (simp add: create_rotation_z_eq e_def)

subsection \<open>C2: the angle modulo\<close>

text \<open>
  C2: for every finite angle \<open>a\<close>, \<open>mod_pi a\<close> lies in \<open>[-\<pi>, \<pi>)\<close>; the comments of the
  function say the same (\<^verbatim>\<open>modulo between -PI to PI\<close>, \<^verbatim>\<open>range of -PI to PI-epsilon\<close>).
  The code does not keep to it. The angle \<open>1000000000\<close> is a binary32 number; adding
  \<open>PI32\<close> leaves it unchanged, the quotient by \<open>2 * PI32\<close> rounds to \<open>159154944\<close>, a
  value the cast to \<^verbatim>\<open>s32\<close> keeps, the product \<open>2 * PI32 * 159154944\<close> rounds to
  \<open>1000000064\<close>, the remainder is \<open>- 64\<close>, and \<open>mod_pi\<close> returns
  \<open>- 8800383 / 2 ^ 17\<close>, about \<open>- 67.14\<close>, which is below \<open>- \<pi>\<close>. At the two angles the
  claim names, \<open>mod_pi (3 * PI32) = - PI32\<close> and
  \<open>mod_pi (- (3 * PI32)) = - 13176793 / 2 ^ 22\<close>, two units in the last place above
  \<open>- PI32\<close>.
\<close>

theorem mod_pi_large_angle:
  "is_f32 (Fin 1000000000)
   \<and> mod_pi (Fin 1000000000) = Fin (- 8800383 / 2 ^ 17) \<and> \<not> (- pi \<le> - 8800383 / 2 ^ 17)
   \<and> mod_pi (Fin 3 * PI32) = - PI32
   \<and> mod_pi (- (Fin 3 * PI32)) = Fin (- 13176793 / 2 ^ 22)"
proof -
  have "rnd (of_int 1953125 * p2 9) = Fin (of_int 1953125 * p2 9)"
    by (rule rnd_grid [OF refl]) (simp_all add: p2_eval)
  then have f: "is_f32 (Fin 1000000000)" by (simp add: is_f32_def p2_eval)
  have "pi < 8800383 / 2 ^ 17" using pi_less_4 by simp
  then show ?thesis using f by (simp add: mod_pi_big mod_pi_3pi mod_pi_m3pi)
qed

subsection \<open>C3: the general inverse\<close>




subsection \<open>C4: the look-at matrix\<close>

text \<open>
  C4: for every \<open>eye\<close>, \<open>target\<close> and \<open>up\<close>, with
  \<open>forward = normalize (eye - target)\<close>, \<open>right = normalize (cross up forward)\<close> and
  \<open>upward = cross forward right\<close>, the third row of \<open>create_look_at eye target up\<close> holds
  the forward axis and the translation terms are \<open>- dot right eye\<close>, \<open>- dot upward eye\<close>
  and \<open>- dot forward eye\<close>. For \<open>eye = (3,0,3)\<close>, \<open>target = (0,0,0)\<close>, \<open>up = (0,1,0)\<close>
  the third row is \<open>(3,0,3) / length (3,0,3)\<close>, computed with the operators of the code.
\<close>

theorem create_look_at_basis:
  "(let forward = normalize_Vec3 (sub_Vec3 eye target);
        right = normalize_Vec3 (cross_Vec3 up forward);
        upward = cross_Vec3 forward right;
        m = create_look_at eye target up
    in Vec3 (e m 0 2) (e m 1 2) (e m 2 2) = forward
       \<and> e m 3 0 = - dot_Vec3 right eye
       \<and> e m 3 1 = - dot_Vec3 upward eye
       \<and> e m 3 2 = - dot_Vec3 forward eye)
   \<and> (let m = create_look_at (Vec3 (Fin 3) 0 (Fin 3)) (Vec3 0 0 0) (Vec3 0 1 0)
      in Vec3 (e m 0 2) (e m 1 2) (e m 2 2)
           = div_Vec3_f32 (Vec3 (Fin 3) 0 (Fin 3)) (length_vec_Vec3 (Vec3 (Fin 3) 0 (Fin 3))))"
proof -
  have third_row: "Vec3 (e m 0 2) (e m 1 2) (e m 2 2) = normalize_Vec3 (sub_Vec3 ey tg)
      \<and> e m 3 0 = - dot_Vec3 (normalize_Vec3 (cross_Vec3 u (normalize_Vec3 (sub_Vec3 ey tg)))) ey
      \<and> e m 3 1 = - dot_Vec3 (cross_Vec3 (normalize_Vec3 (sub_Vec3 ey tg))
                          (normalize_Vec3 (cross_Vec3 u (normalize_Vec3 (sub_Vec3 ey tg))))) ey
      \<and> e m 3 2 = - dot_Vec3 (normalize_Vec3 (sub_Vec3 ey tg)) ey"
    if m: "m = create_look_at ey tg u" for m ey tg u
  proof -
    obtain fx fy fz where f: "normalize_Vec3 (sub_Vec3 ey tg) = Vec3 fx fy fz"
      by (cases "normalize_Vec3 (sub_Vec3 ey tg)")
    obtain rx ry rz where r: "normalize_Vec3 (cross_Vec3 u (Vec3 fx fy fz)) = Vec3 rx ry rz"
      by (cases "normalize_Vec3 (cross_Vec3 u (Vec3 fx fy fz))")
    obtain ux uy uz where u: "cross_Vec3 (Vec3 fx fy fz) (Vec3 rx ry rz) = Vec3 ux uy uz"
      by (cases "cross_Vec3 (Vec3 fx fy fz) (Vec3 rx ry rz)")
    show ?thesis unfolding m create_look_at_eq [OF f r u] f r u
      by (simp add: e_def)
  qed
  have s: "sub_Vec3 (Vec3 (Fin 3) 0 (Fin 3)) (Vec3 0 0 0) = Vec3 (Fin 3) 0 (Fin 3)"
    by (simp add: zero_f32_def Fin_sub)
  have n: "normalize_Vec3 (Vec3 (Fin 3) 0 (Fin 3)) =
             div_Vec3_f32 (Vec3 (Fin 3) 0 (Fin 3)) (length_vec_Vec3 (Vec3 (Fin 3) 0 (Fin 3)))"
    using length_3_0_3_nz
    by (simp add: Let_def div_Vec3_f32_def fmul_commute del: length_vec_Vec3.simps)
  show ?thesis
    using third_row [OF refl, of eye target up]
      third_row [OF refl, of "Vec3 (Fin 3) 0 (Fin 3)" "Vec3 0 0 0" "Vec3 0 1 0"]
    unfolding s n Let_def by simp
qed

subsection \<open>C5: the affine product\<close>

text \<open>
  C5 as stated: for all matrices \<open>a\<close> and \<open>b\<close> that satisfy the affine invariant (bottom
  row \<open>[0,0,0,1]\<close>, shear-free upper-left block), \<open>mul_trans a b\<close> is the general product
  \<open>a * b\<close>. Let \<open>a\<close> be the translation by \<open>(+\<infinity>, 0, 0)\<close> and \<open>b\<close> the identity: both have
  the identity as upper-left block and the bottom row \<open>[0,0,0,1]\<close>. In column 0 the
  general product adds the translation column times \<open>b.e[0][3] = 0\<close>, and infinity times
  zero is NaN; \<open>mul_trans\<close> skips that term and returns \<open>1\<close>.
\<close>

theorem mul_trans_counterexample:
  "e (Mat4 (Vec4 1 0 0 0) (Vec4 0 1 0 0) (Vec4 0 0 1 0) (Vec4 PInf 0 0 1)) 0 3 = 0
   \<and> e (Mat4 (Vec4 1 0 0 0) (Vec4 0 1 0 0) (Vec4 0 0 1 0) (Vec4 PInf 0 0 1)) 1 3 = 0
   \<and> e (Mat4 (Vec4 1 0 0 0) (Vec4 0 1 0 0) (Vec4 0 0 1 0) (Vec4 PInf 0 0 1)) 2 3 = 0
   \<and> e (Mat4 (Vec4 1 0 0 0) (Vec4 0 1 0 0) (Vec4 0 0 1 0) (Vec4 PInf 0 0 1)) 3 3 = 1
   \<and> e (mul_trans (Mat4 (Vec4 1 0 0 0) (Vec4 0 1 0 0) (Vec4 0 0 1 0) (Vec4 PInf 0 0 1))
                   (Mat4 (Vec4 1 0 0 0) (Vec4 0 1 0 0) (Vec4 0 0 1 0) (Vec4 0 0 0 1))) 0 0 = 1
   \<and> e (mul_Mat4 (Mat4 (Vec4 1 0 0 0) (Vec4 0 1 0 0) (Vec4 0 0 1 0) (Vec4 PInf 0 0 1))
                  (Mat4 (Vec4 1 0 0 0) (Vec4 0 1 0 0) (Vec4 0 0 1 0) (Vec4 0 0 0 1))) 0 0 = NaN"
  by (simp add: e_def mul_trans_def mul_Mat4_def Mat4_zero_def trans_linear_combination_eq
      linear_combination_eq zero_f32_def one_f32_def times_f32_def plus_f32_def)

text \<open>
  C5 (amended): for all matrices \<open>a\<close> and \<open>b\<close> such that the translation column of \<open>a\<close> is
  finite and the first three entries of the bottom row of \<open>b\<close> are zero, \<open>mul_trans a b\<close>
  is the general product \<open>a * b\<close>, entry for entry. This covers every pair of matrices of
  finite numbers that satisfy the affine invariant; neither the bottom row of \<open>a\<close> nor
  the shape of the upper-left blocks matters. The term that \<open>trans_linear_combination\<close>
  skips is a finite column times zero.
\<close>

theorem mul_trans_general_product:
  assumes "finite_Vec4 (columns a 3)" "e b 0 3 = 0" "e b 1 3 = 0" "e b 2 3 = 0"
  shows "mul_trans a b = mul_Mat4 a b"
proof -
  obtain a0 a1 a2 a3 where a: "a = Mat4 a0 a1 a2 a3" by (cases a)
  obtain x0 y0 z0 w0 where a0: "a0 = Vec4 x0 y0 z0 w0" by (cases a0)
  obtain x1 y1 z1 w1 where a1: "a1 = Vec4 x1 y1 z1 w1" by (cases a1)
  obtain x2 y2 z2 w2 where a2: "a2 = Vec4 x2 y2 z2 w2" by (cases a2)
  obtain x3 y3 z3 w3 where a3: "a3 = Vec4 x3 y3 z3 w3" by (cases a3)
  obtain b0 b1 b2 b3 where b: "b = Mat4 b0 b1 b2 b3" by (cases b)
  from assms(1) have f: "is_finite x3" "is_finite y3" "is_finite z3" "is_finite w3"
    by (simp_all add: a a3)
  have col: "trans_linear_combination a (Vec4 p q r 0) = linear_combination a (Vec4 p q r 0)" for p q r
    by (simp add: a a0 a1 a2 a3 trans_linear_combination_eq linear_combination_eq
        mul_zero_f32 [OF f(1)] mul_zero_f32 [OF f(2)] mul_zero_f32 [OF f(3)] mul_zero_f32 [OF f(4)]
        add_zero_f32 [OF is_f32_add])
  obtain p0 q0 r0 s0 where b0: "b0 = Vec4 p0 q0 r0 s0" by (cases b0)
  obtain p1 q1 r1 s1 where b1: "b1 = Vec4 p1 q1 r1 s1" by (cases b1)
  obtain p2' q2 r2 s2 where b2: "b2 = Vec4 p2' q2 r2 s2" by (cases b2)
  from assms(2-4) have "s0 = 0" "s1 = 0" "s2 = 0" by (simp_all add: b b0 b1 b2 e_def)
  then show ?thesis
    by (simp add: mul_trans_def mul_Mat4_def b b0 b1 b2 col Mat4_zero_def)
qed

theorem mul_trans_general_product_witness:
  "finite_Vec4 (columns (Mat4 (Vec4 1 (Fin 2) 0 (Fin 7)) (Vec4 (Fin 3) 1 (Fin 4) 0) (Vec4 0 0 1 (Fin 5))
       (Vec4 (Fin 1) (Fin 2) (Fin 3) (Fin 2))) 3)
   \<and> mul_trans (Mat4 (Vec4 1 (Fin 2) 0 (Fin 7)) (Vec4 (Fin 3) 1 (Fin 4) 0) (Vec4 0 0 1 (Fin 5))
                   (Vec4 (Fin 1) (Fin 2) (Fin 3) (Fin 2)))
                (Mat4 (Vec4 (Fin 2) 0 0 0) (Vec4 0 (Fin 3) 0 0) (Vec4 0 0 1 0) (Vec4 (Fin 5) 0 0 1))
     = mul_Mat4 (Mat4 (Vec4 1 (Fin 2) 0 (Fin 7)) (Vec4 (Fin 3) 1 (Fin 4) 0) (Vec4 0 0 1 (Fin 5))
                   (Vec4 (Fin 1) (Fin 2) (Fin 3) (Fin 2)))
                (Mat4 (Vec4 (Fin 2) 0 0 0) (Vec4 0 (Fin 3) 0 0) (Vec4 0 0 1 0) (Vec4 (Fin 5) 0 0 1))"
proof -
  have f: "finite_Vec4 (columns (Mat4 (Vec4 1 (Fin 2) 0 (Fin 7)) (Vec4 (Fin 3) 1 (Fin 4) 0) (Vec4 0 0 1 (Fin 5))
       (Vec4 (Fin 1) (Fin 2) (Fin 3) (Fin 2))) 3)"
    by simp
  have z: "e (Mat4 (Vec4 (Fin 2) 0 0 0) (Vec4 0 (Fin 3) 0 0) (Vec4 0 0 1 0) (Vec4 (Fin 5) 0 0 1)) 0 3 = 0"
      "e (Mat4 (Vec4 (Fin 2) 0 0 0) (Vec4 0 (Fin 3) 0 0) (Vec4 0 0 1 0) (Vec4 (Fin 5) 0 0 1)) 1 3 = 0"
      "e (Mat4 (Vec4 (Fin 2) 0 0 0) (Vec4 0 (Fin 3) 0 0) (Vec4 0 0 1 0) (Vec4 (Fin 5) 0 0 1)) 2 3 = 0"
    by (simp_all add: e_def)
  show ?thesis using f mul_trans_general_product [OF f z] by simp
qed

subsection \<open>C6: normalize\<close>

text \<open>
  C6 as stated: normalize of any non-zero vector has length \<open>1\<close> within about \<open>1e-5\<close>. The
  vector \<open>(2 ^ -100, 0, 0)\<close> is a non-zero vector of binary32 numbers; its square
  \<open>2 ^ -200\<close> rounds to zero, the computed length is zero, and \<open>normalize\<close> returns the
  zero vector.
\<close>

theorem normalize_counterexample:
  "is_f32 (Fin (1 / 2 ^ 100)) \<and> Vec3 (Fin (1 / 2 ^ 100)) 0 0 \<noteq> Vec3 0 0 0
   \<and> normalize_Vec3 (Vec3 (Fin (1 / 2 ^ 100)) 0 0) = Vec3 0 0 0
   \<and> exact_length_Vec3 (normalize_Vec3 (Vec3 (Fin (1 / 2 ^ 100)) 0 0)) = 0"
proof -
  have "rnd (of_int 1 * p2 (- 100)) = Fin (of_int 1 * p2 (- 100))"
    by (rule rnd_grid [OF refl]) (simp_all add: p2_eval)
  then have f: "is_f32 (Fin (1 / 2 ^ 100))" by (simp add: is_f32_def p2_eval)
  have ne: "Vec3 (Fin (1 / 2 ^ 100)) 0 0 \<noteq> Vec3 0 0 0" by (simp add: zero_f32_def)
  have e: "exact_length_Vec3 (Vec3 0 0 0) = 0" by (simp add: zero_f32_def real_of_f32_def)
  show ?thesis unfolding normalize_tiny using f ne e by (simp only: simp_thms)
qed

text \<open>
  C6 (amended): for every vector \<open>v\<close> (Vec2, Vec3 or Vec4) of moderate size, the components of
  \<open>normalize v\<close> are finite and its Euclidean length is within \<open>1e-5\<close> of \<open>1\<close>. For the zero
  vector the computed length is zero, so the guard \<open>length != 0\<close> fails, nothing is divided
  and the zero vector is returned.
\<close>

theorem normalize_amended:
  assumes "moderate_Vec2 v2" "moderate_Vec3 v3" "moderate_Vec4 v4"
  shows "(finite_Vec2 (normalize_Vec2 v2) \<and> \<bar>exact_length_Vec2 (normalize_Vec2 v2) - 1\<bar> \<le> 1 / 10 ^ 5)
       \<and> (finite_Vec3 (normalize_Vec3 v3) \<and> \<bar>exact_length_Vec3 (normalize_Vec3 v3) - 1\<bar> \<le> 1 / 10 ^ 5)
       \<and> (finite_Vec4 (normalize_Vec4 v4) \<and> \<bar>exact_length_Vec4 (normalize_Vec4 v4) - 1\<bar> \<le> 1 / 10 ^ 5)
       \<and> length_vec_Vec2 (Vec2 0 0) = 0 \<and> normalize_Vec2 (Vec2 0 0) = Vec2 0 0
       \<and> length_vec_Vec3 (Vec3 0 0 0) = 0 \<and> normalize_Vec3 (Vec3 0 0 0) = Vec3 0 0 0
       \<and> length_vec_Vec4 (Vec4 0 0 0 0) = 0 \<and> normalize_Vec4 (Vec4 0 0 0 0) = Vec4 0 0 0 0"
  using normalize_Vec2_moderate [OF assms(1)] normalize_Vec3_moderate [OF assms(2)]
    normalize_Vec4_moderate [OF assms(3)] normalize_zero
  by (simp only: simp_thms)

theorem normalize_amended_witness:
  "moderate_Vec2 (Vec2 (Fin 3) (Fin 4)) \<and> moderate_Vec3 (Vec3 (Fin 3) 0 (Fin 3))
   \<and> moderate_Vec4 (Vec4 (Fin 1) (Fin 2) (Fin 3) (Fin 4))
   \<and> \<bar>exact_length_Vec2 (normalize_Vec2 (Vec2 (Fin 3) (Fin 4))) - 1\<bar> \<le> 1 / 10 ^ 5
   \<and> \<bar>exact_length_Vec3 (normalize_Vec3 (Vec3 (Fin 3) 0 (Fin 3))) - 1\<bar> \<le> 1 / 10 ^ 5
   \<and> \<bar>exact_length_Vec4 (normalize_Vec4 (Vec4 (Fin 1) (Fin 2) (Fin 3) (Fin 4))) - 1\<bar> \<le> 1 / 10 ^ 5"
proof -
  have h2: "moderate_Vec2 (Vec2 (Fin 3) (Fin 4))"
    by (simp add: moderate_def sizeable_def real_of_f32_def)
  have h3: "moderate_Vec3 (Vec3 (Fin 3) 0 (Fin 3))"
    by (simp add: moderate_def sizeable_def real_of_f32_def zero_f32_def)
  have h4: "moderate_Vec4 (Vec4 (Fin 1) (Fin 2) (Fin 3) (Fin 4))"
    by (simp add: moderate_def sizeable_def real_of_f32_def)
  show ?thesis using h2 h3 h4 normalize_amended [OF h2 h3 h4] by (simp only: simp_thms)
qed

subsection \<open>C7: the perspective matrix\<close>

text \<open>
  C7: for every \<open>fov\<close>, \<open>aspect\<close>, \<open>near\<close>, \<open>far\<close> the matrix \<open>create_perspective\<close> has
  \<open>e[0][0] = (1 / tan (fov / 2)) / aspect\<close>, \<open>e[1][1] = 1 / tan (fov / 2)\<close>,
  \<open>e[2][2] = far / (near - far)\<close>, \<open>e[2][3] = - 1\<close>, \<open>e[3][2] = (near * far) / (near - far)\<close>
  and zero everywhere else.
\<close>

theorem create_perspective_entries:
  "create_perspective fov aspect near far =
     Mat4 (Vec4 ((1 / ftan (fov / Fin 2)) / aspect) 0 0 0)
          (Vec4 0 (1 / ftan (fov / Fin 2)) 0 0)
          (Vec4 0 0 (far / (near - far)) (- 1))
          (Vec4 0 0 ((near * far) / (near - far)) 0)"
  by (simp add: create_perspective_def Mat4_zero_def set_e_def Let_def)

subsection \<open>C8: the unimplemented refraction\<close>

text \<open>
  C8: for every input, \<open>refract_fast\<close> traps and returns no vector.
\<close>

theorem refract_fast_traps:
  "refract_fast a b ratio = Inl DebugBreak \<and> (\<nexists>v. refract_fast a b ratio = Inr v)"
  by (simp add: refract_fast_def)

subsection \<open>C9: transforming a point\<close>

text \<open>
  C9: for every matrix \<open>a\<close> of binary32 numbers, affine or not, and every point \<open>p\<close>,
  \<open>mul_trans_point a p\<close> is the \<open>x, y, z\<close> part of the general product of \<open>a\<close> with
  \<open>(p.x, p.y, p.z, 1)\<close>. The fast path adds column 3 where the general path adds
  column 3 times one, and a binary32 number times one is itself.
\<close>

theorem mul_trans_point_general:
  assumes "valid_Vec4 (columns a 3)"
  shows "mul_trans_point a (Vec3 px py pz) = xyz (mul_Mat4_Vec4 a (Vec4 px py pz 1))"
proof -
  obtain c0 c1 c2 c3 where a: "a = Mat4 c0 c1 c2 c3" by (cases a)
  obtain x0 y0 z0 w0 where c0: "c0 = Vec4 x0 y0 z0 w0" by (cases c0)
  obtain x1 y1 z1 w1 where c1: "c1 = Vec4 x1 y1 z1 w1" by (cases c1)
  obtain x2 y2 z2 w2 where c2: "c2 = Vec4 x2 y2 z2 w2" by (cases c2)
  obtain x3 y3 z3 w3 where c3: "c3 = Vec4 x3 y3 z3 w3" by (cases c3)
  from assms have v: "is_f32 x3" "is_f32 y3" "is_f32 z3" by (simp_all add: a c3)
  show ?thesis
    by (simp add: a c0 c1 c2 c3 mul_trans_point_def mul_Mat4_Vec4_def linear_combination_def
        mm_set_ps_def mm_shuffle_ps_def mul_one_f32 [OF v(1)] mul_one_f32 [OF v(2)] mul_one_f32 [OF v(3)])
qed

theorem mul_trans_point_general_witness:
  "valid_Vec4 (columns (Mat4 (Vec4 (Fin 2) (Fin 3) 0 1) (Vec4 0 1 (Fin 2) 0) (Vec4 1 1 1 1)
       (Vec4 (Fin 1) (Fin 2) (Fin 3) (Fin 2))) 3)
   \<and> mul_trans_point (Mat4 (Vec4 (Fin 2) (Fin 3) 0 1) (Vec4 0 1 (Fin 2) 0) (Vec4 1 1 1 1)
       (Vec4 (Fin 1) (Fin 2) (Fin 3) (Fin 2))) (Vec3 (Fin 1) (Fin 2) (Fin 3))
     = xyz (mul_Mat4_Vec4 (Mat4 (Vec4 (Fin 2) (Fin 3) 0 1) (Vec4 0 1 (Fin 2) 0) (Vec4 1 1 1 1)
       (Vec4 (Fin 1) (Fin 2) (Fin 3) (Fin 2))) (Vec4 (Fin 1) (Fin 2) (Fin 3) 1))"
proof -
  have v: "valid_Vec4 (columns (Mat4 (Vec4 (Fin 2) (Fin 3) 0 1) (Vec4 0 1 (Fin 2) 0) (Vec4 1 1 1 1)
       (Vec4 (Fin 1) (Fin 2) (Fin 3) (Fin 2))) 3)"
    by (simp add: is_f32_def)
  show ?thesis using v mul_trans_point_general [OF v, of "Fin 1" "Fin 2" "Fin 3"] by simp
qed

subsection \<open>C10: the fourth lane of the 4-wide cross product\<close>

text \<open>
  C10: for all \<open>a\<close> and \<open>b\<close> whose \<open>w\<close> components have a finite product, the \<open>w\<close>
  component of \<open>cross a b\<close> is exactly zero: the fourth lane computes
  \<open>a.w * b.w - a.w * b.w\<close>.
\<close>

theorem cross_Vec4_w:
  assumes "is_finite (lane a 3 * lane b 3)"
  shows "lane (cross_Vec4 a b) 3 = 0"
proof -
  obtain ax ay az aw where a: "a = Vec4 ax ay az aw" by (cases a)
  obtain bx by' bz bw where b: "b = Vec4 bx by' bz bw" by (cases b)
  from assms have "is_finite (aw * bw)" by (simp add: a b)
  then have "aw * bw - aw * bw = 0" by (rule sub_self_f32)
  then show ?thesis by (simp add: a b cross_Vec4_lanes)
qed

theorem cross_Vec4_w_witness:
  "is_finite (lane (Vec4 (Fin 1) (Fin 2) (Fin 3) (Fin 2)) 3 * lane (Vec4 (Fin 3) (Fin 1) (Fin 2) (Fin 3)) 3)
   \<and> lane (cross_Vec4 (Vec4 (Fin 1) (Fin 2) (Fin 3) (Fin 2)) (Vec4 (Fin 3) (Fin 1) (Fin 2) (Fin 3))) 3 = 0"
proof -
  have "rnd 6 = Fin 6" using rnd_of_int [of 6] by simp
  then have f: "is_finite (lane (Vec4 (Fin 1) (Fin 2) (Fin 3) (Fin 2)) 3 * lane (Vec4 (Fin 3) (Fin 1) (Fin 2) (Fin 3)) 3)"
    by (simp add: Fin_mul)
  show ?thesis using f cross_Vec4_w [OF f] by simp
qed

end
